theory Spec2Isabelle
  imports Main "HOL-Library.Word" "HOL-Library.Finite_Map"
begin

text \<open>
  A shallow embedding of the Go package \<open>forms\<close> (repository saward/go-forms): the
  side-effecting \<open>Is*\<close> checks built on \<open>AddError\<close>, and the checks of
  \<open>validate/validation.go\<close> that build an \<open>error\<close> in a closure and hand it to
  \<open>Validate\<close>. The accumulator is a map from field names to slices, and the slices are
  windows on backing arrays in a heap, so that \<open>append\<close> is modelled with its capacity
  and with the sharing of arrays between slices.

  Go's \<open>int\<close>, and the result of \<open>len\<close>, are modelled by the integers they denote: the
  package only compares and prints them and never computes with them, so no operation can
  overflow. The type parameter of \<open>NumberBetween\<close> is a machine word of any width together
  with its signedness. A Go \<open>string\<close> is a sequence of bytes, here a \<open>char list\<close>, and
  \<open>len\<close> counts bytes.
\<close>

section \<open>The standard library, as far as the package uses it\<close>

subsection \<open>Decimal formatting: the verb \<open>%d\<close>\<close>

definition digit_char :: "nat \<Rightarrow> char" where
  "digit_char d = ''0123456789'' ! d"

fun fmt_nat :: "nat \<Rightarrow> string" where
  "fmt_nat u = (if u < 10 then [digit_char u] else fmt_nat (u div 10) @ [digit_char (u mod 10)])"

declare fmt_nat.simps [simp del]

text \<open>\<open>%d\<close> applied to an integer operand of any integer type: its decimal digits, after a
  minus sign when it is negative.\<close>

definition fmt_d :: "int \<Rightarrow> string" where
  "fmt_d i = (if i < 0 then CHR ''-'' # fmt_nat (nat (- i)) else fmt_nat (nat i))"

subsection \<open>\<open>fmt.Errorf\<close> applied to a format string and no operands\<close>

text \<open>
  Every call of \<open>fmt.Errorf\<close> in the package passes one string and no operand. The string
  is still scanned as a format: text is copied up to the next \<open>%\<close>, and each directive
  (flags, argument index, width, precision, verb) is consumed and answered by \<open>%\<close> for the
  verb \<open>%\<close>, and otherwise by one of the error texts of package \<open>fmt\<close>, since there is no
  operand to print. The definitions follow the scanning loop of \<open>fmt\<close> specialised to an
  empty operand list.
\<close>

datatype error = errorString string

fun Error :: "error \<Rightarrow> string" where
  "Error (errorString s) = s"

definition is_flag :: "char \<Rightarrow> bool" where
  "is_flag c = (c = CHR ''#'' \<or> c = CHR ''0'' \<or> c = CHR ''+'' \<or> c = CHR ''-'' \<or> c = CHR '' '')"

definition in_range :: "nat \<Rightarrow> nat \<Rightarrow> char \<Rightarrow> bool" where
  "in_range lo hi c = (lo \<le> of_char c \<and> of_char c \<le> hi)"

definition is_digit :: "char \<Rightarrow> bool" where
  "is_digit c = in_range 0x30 0x39 c"

definition tooLarge :: "nat \<Rightarrow> bool" where
  "tooLarge x = (x > 1000000)"

text \<open>\<open>parsenum\<close> reads a run of digits; on a number that is too large it gives up and
  skips to the end of the text it was given.\<close>

fun parsenum :: "nat \<Rightarrow> bool \<Rightarrow> string \<Rightarrow> bool \<times> string" where
  "parsenum num isnum [] = (isnum, [])"
| "parsenum num isnum (c # cs) =
     (if is_digit c
      then (if tooLarge num then (False, [])
            else parsenum (num * 10 + (of_char c - 0x30)) True cs)
      else (isnum, c # cs))"

text \<open>\<open>parseArgNumber\<close> is applied to a text that starts with \<open>[\<close>; it returns how many
  bytes the index takes and whether it is a number in brackets.\<close>

definition parseArgNumber :: "string \<Rightarrow> nat \<times> bool" where
  "parseArgNumber cs =
     (if length cs < 3 then (1, False)
      else (let body = takeWhile (\<lambda>c. c \<noteq> CHR '']'') (tl cs)
            in if length body = length (tl cs) then (1, False)
               else (length body + 2, parsenum 0 False body = (True, []))))"

definition starts_with :: "char \<Rightarrow> string \<Rightarrow> bool" where
  "starts_with c cs = (case cs of [] \<Rightarrow> False | x # _ \<Rightarrow> x = c)"

text \<open>\<open>argNumber\<close> returns the rest of the format, \<open>afterIndex\<close>, and whether
  \<open>goodArgNum\<close> survives: with no operands every explicit index is out of range.\<close>

definition argNumber :: "string \<Rightarrow> string \<times> bool \<times> bool" where
  "argNumber cs =
     (if starts_with CHR ''['' cs
      then (let (wid, ok) = parseArgNumber cs in (drop wid cs, ok, False))
      else (cs, False, True))"

text \<open>A verb is one UTF-8 encoded rune. A valid encoding is written back as it stands, an
  invalid first byte is consumed alone and written as U+FFFD.\<close>

definition runeError :: string where
  "runeError = [char_of (0xEF :: nat), char_of (0xBF :: nat), char_of (0xBD :: nat)]"

definition decodeRune :: "string \<Rightarrow> string \<times> nat" where
  "decodeRune s =
     (let s0 = (of_char (s ! 0) :: nat) in
      if s0 < 0x80 then ([s ! 0], 1)
      else if s0 < 0xC2 \<or> 0xF4 < s0 then (runeError, 1)
      else
        (let sz = (if s0 < 0xE0 then 2 else if s0 < 0xF0 then 3 else 4 :: nat);
             lo = (if s0 = 0xE0 then 0xA0 else if s0 = 0xF0 then 0x90 else 0x80);
             hi = (if s0 = 0xED then 0x9F else if s0 = 0xF4 then 0x8F else 0xBF)
         in if length s < sz then (runeError, 1)
            else if \<not> in_range lo hi (s ! 1) then (runeError, 1)
            else if sz \<le> 2 then (take 2 s, 2)
            else if \<not> in_range 0x80 0xBF (s ! 2) then (runeError, 1)
            else if sz \<le> 3 then (take 3 s, 3)
            else if \<not> in_range 0x80 0xBF (s ! 3) then (runeError, 1)
            else (take 4 s, 4)))"

text \<open>The three stages after the flags. Each takes the rest of the format with
  \<open>afterIndex\<close> and \<open>goodArgNum\<close>, and returns what it writes first. A dot starts a
  precision only when a byte follows it; a dot at the very end of the format is the verb.\<close>

definition parse_width :: "string \<times> bool \<times> bool \<Rightarrow> string \<times> string \<times> bool \<times> bool" where
  "parse_width st =
     (case st of (cs, afterIndex, goodArgNum) \<Rightarrow>
        if starts_with CHR ''*'' cs then (''%!(BADWIDTH)'', tl cs, False, goodArgNum)
        else (let (widPresent, r) = parsenum 0 False cs
              in ([], r, afterIndex, goodArgNum \<and> \<not> (afterIndex \<and> widPresent))))"

definition parse_prec :: "string \<times> bool \<times> bool \<Rightarrow> string \<times> string \<times> bool \<times> bool" where
  "parse_prec st =
     (case st of (cs, afterIndex, goodArgNum) \<Rightarrow>
        if starts_with CHR ''.'' cs \<and> tl cs \<noteq> []
        then (let (r1, a, g) = argNumber (tl cs);
                  g' = (goodArgNum \<and> \<not> afterIndex \<and> g)
              in if starts_with CHR ''*'' r1 then (''%!(BADPREC)'', tl r1, False, g')
                 else ([], snd (parsenum 0 False r1), a, g'))
        else ([], cs, afterIndex, goodArgNum))"

definition parse_verb :: "string \<times> bool \<times> bool \<Rightarrow> string \<times> string" where
  "parse_verb st =
     (case st of (cs, afterIndex, goodArgNum) \<Rightarrow>
        (let (cs', good) =
               (if \<not> afterIndex then (let (r, a, g) = argNumber cs in (r, goodArgNum \<and> g))
                else (cs, goodArgNum))
         in if cs' = [] then (''%!(NOVERB)'', [])
            else (let (verb, size) = decodeRune cs'
                  in (if verb = ''%'' then ''%''
                      else if \<not> good then ''%!'' @ verb @ ''(BADINDEX)''
                      else ''%!'' @ verb @ ''(MISSING)'',
                      drop size cs'))))"

text \<open>One directive, from the byte after \<open>%\<close>: what is written and the rest of the
  format.\<close>

definition directive :: "string \<Rightarrow> string \<times> string" where
  "directive cs =
     (let (cs1, after1, good1) = argNumber (dropWhile is_flag cs);
          (outw, st2) = parse_width (cs1, after1, good1);
          (outp, st3) = parse_prec st2;
          (outv, rest) = parse_verb st3
      in (outw @ outp @ outv, rest))"

lemma parsenum_length: "length (snd (parsenum num isnum cs)) \<le> length cs"
  by (induction cs arbitrary: num isnum) (auto intro: le_SucI)

lemma argNumber_length: "length (fst (argNumber cs)) \<le> length cs"
  by (simp add: argNumber_def split: prod.splits)

lemma parse_width_length: "length (fst (snd (parse_width (cs, a, g)))) \<le> length cs"
  using parsenum_length [of 0 False cs]
  by (auto simp: parse_width_def split: prod.splits)

lemma parse_prec_length: "length (fst (snd (parse_prec (cs, a, g)))) \<le> length cs"
proof (cases "starts_with CHR ''.'' cs \<and> tl cs \<noteq> []")
  case False
  then show ?thesis by (auto simp: parse_prec_def)
next
  case True
  obtain r1 a1 g1 where r1: "argNumber (tl cs) = (r1, a1, g1)"
    by (cases "argNumber (tl cs)") auto
  have "length r1 \<le> length (tl cs)"
    using argNumber_length [of "tl cs"] r1 by simp
  moreover have "length (snd (parsenum 0 False r1)) \<le> length r1"
    by (rule parsenum_length)
  ultimately show ?thesis
    using True r1 by (auto simp: parse_prec_def Let_def)
qed

lemma parse_verb_length: "length (snd (parse_verb (cs, a, g))) \<le> length cs"
  using argNumber_length [of cs]
  by (auto simp: parse_verb_def Let_def split: prod.splits)

lemma directive_length: "length (snd (directive cs)) \<le> length cs"
proof -
  obtain cs1 a1 g1 where s1: "argNumber (dropWhile is_flag cs) = (cs1, a1, g1)"
    by (cases "argNumber (dropWhile is_flag cs)") auto
  obtain ow cs2 a2 g2 where s2: "parse_width (cs1, a1, g1) = (ow, cs2, a2, g2)"
    by (cases "parse_width (cs1, a1, g1)") auto
  obtain ov cs3 a3 g3 where s3: "parse_prec (cs2, a2, g2) = (ov, cs3, a3, g3)"
    by (cases "parse_prec (cs2, a2, g2)") auto
  have "length cs1 \<le> length (dropWhile is_flag cs)"
    using argNumber_length [of "dropWhile is_flag cs"] s1 by simp
  also have "\<dots> \<le> length cs"
    by (rule length_dropWhile_le)
  finally have l1: "length cs1 \<le> length cs" .
  have l2: "length cs2 \<le> length cs1"
    using parse_width_length [of cs1 a1 g1] s2 by simp
  have l3: "length cs3 \<le> length cs2"
    using parse_prec_length [of cs2 a2 g2] s3 by simp
  have l4: "length (snd (parse_verb (cs3, a3, g3))) \<le> length cs3"
    by (rule parse_verb_length)
  show ?thesis
    using l1 l2 l3 l4 s1 s2 s3 by (auto simp: directive_def split: prod.splits)
qed

text \<open>The scanning loop: it terminates because a directive never returns more format
  than it was given.\<close>

function doPrintf :: "string \<Rightarrow> string" where
  "doPrintf [] = []"
| "doPrintf (c # cs) =
     (if c = CHR ''%'' then fst (directive cs) @ doPrintf (snd (directive cs))
      else c # doPrintf cs)"
  by pat_completeness auto
termination
proof (relation "measure length")
  show "wf (measure length)" by simp
next
  fix c :: char and cs :: string
  show "(snd (directive cs), c # cs) \<in> measure length"
    using directive_length [of cs] by simp
next
  fix c :: char and cs :: string
  show "(cs, c # cs) \<in> measure length" by simp
qed

definition Errorf :: "string \<Rightarrow> error" where
  "Errorf format = errorString (doPrintf format)"

subsection \<open>Regular expressions: the pattern of \<open>EmailRx\<close>\<close>

text \<open>
  A compiled \<open>*regexp.Regexp\<close> is used through \<open>MatchString\<close> only, so a compiled pattern
  is that function; the pointer may be nil. The one pattern the package compiles itself is
  \<open>^\S+@\S+$\<close>. It is written as a regular expression over bytes and matched by
  derivatives; \<open>^\<close> and \<open>$\<close> (no flags) anchor the match to the whole text. The class
  \<open>\s\<close> of Go's syntax is tab, line feed, form feed, carriage return and space, all of
  them ASCII, as is \<open>@\<close>, so matching bytes agrees with matching UTF-8 runes.
\<close>

datatype Regexp = Compiled (MatchString: "string \<Rightarrow> bool")

definition is_space :: "char \<Rightarrow> bool" where
  "is_space c = (c = CHR 0x09 \<or> c = CHR 0x0A \<or> c = CHR 0x0C \<or> c = CHR 0x0D \<or> c = CHR 0x20)"

datatype rexp = Zero | One | Byte char | NotSpace | Alt rexp rexp | Cat rexp rexp | Star rexp

definition Plus :: "rexp \<Rightarrow> rexp" where
  "Plus r = Cat r (Star r)"

fun nullable :: "rexp \<Rightarrow> bool" where
  "nullable Zero = False"
| "nullable One = True"
| "nullable (Byte c) = False"
| "nullable NotSpace = False"
| "nullable (Alt r s) = (nullable r \<or> nullable s)"
| "nullable (Cat r s) = (nullable r \<and> nullable s)"
| "nullable (Star r) = True"

fun deriv :: "char \<Rightarrow> rexp \<Rightarrow> rexp" where
  "deriv a Zero = Zero"
| "deriv a One = Zero"
| "deriv a (Byte c) = (if a = c then One else Zero)"
| "deriv a NotSpace = (if is_space a then Zero else One)"
| "deriv a (Alt r s) = Alt (deriv a r) (deriv a s)"
| "deriv a (Cat r s) =
     (if nullable r then Alt (Cat (deriv a r) s) (deriv a s) else Cat (deriv a r) s)"
| "deriv a (Star r) = Cat (deriv a r) (Star r)"

fun matches :: "rexp \<Rightarrow> string \<Rightarrow> bool" where
  "matches r [] = nullable r"
| "matches r (a # w) = matches (deriv a r) w"

definition EmailRx :: Regexp where
  "EmailRx = Compiled (matches (Cat (Plus NotSpace) (Cat (Byte CHR ''@'') (Plus NotSpace))))"

section \<open>The package\<close>

subsection \<open>Slices, the heap and the accumulator\<close>

text \<open>
  \<open>type Errors map[string][]string\<close>. A slice value is a window on a backing array: the
  array, the offset of the first element, the length and the capacity. The backing arrays
  live in the heap, and two slices may look at the same array. \<open>append\<close> writes into the
  array of its argument when the capacity allows, so that every slice looking at that
  cell sees the new element; otherwise it copies the elements into a new array, whose
  capacity the runtime chooses. The nil slice has length and capacity 0.

  The heap holds the cells of every array, the address of the next array to be allocated,
  and the runtime's choice of spare capacity for a new array of a given length; the
  statements hold for every such choice.

  A map value is nil or an allocated map; reading a nil map or a missing key yields the
  nil slice, assigning to an entry of a nil map panics.
\<close>

record strslice =
  arr :: nat
  off :: nat
  slen :: nat
  scap :: nat

record heap =
  cells :: "nat \<Rightarrow> nat \<Rightarrow> string"
  top :: nat
  spare :: "nat \<Rightarrow> nat"

definition nil_slice :: strslice where
  "nil_slice = \<lparr>arr = 0, off = 0, slen = 0, scap = 0\<rparr>"

definition elems :: "heap \<Rightarrow> strslice \<Rightarrow> string list" where
  "elems h s = map (cells h (arr s)) [off s ..< off s + slen s]"

definition go_append :: "strslice \<Rightarrow> string \<Rightarrow> heap \<Rightarrow> strslice \<times> heap" where
  "go_append s x h =
     (if slen s < scap s
      then (s\<lparr>slen := slen s + 1\<rparr>,
            h\<lparr>cells := (cells h)(arr s := (cells h (arr s))(off s + slen s := x))\<rparr>)
      else (let n = slen s + 1; a = top h
            in (\<lparr>arr = a, off = 0, slen = n, scap = n + spare h n\<rparr>,
                h\<lparr>cells := (cells h)
                       (a := (\<lambda>i. if i < slen s then cells h (arr s) (off s + i)
                                  else if i = slen s then x else [])),
                  top := Suc a\<rparr>)))"

datatype Errors = NilErrors | Errs "string \<rightharpoonup> strslice"

datatype panic = AssignmentToNilMap | NilPointerDereference

definition index :: "Errors \<Rightarrow> string \<Rightarrow> strslice" where
  "index errors field =
     (case errors of
        NilErrors \<Rightarrow> nil_slice
      | Errs m \<Rightarrow> (case m field of None \<Rightarrow> nil_slice | Some s \<Rightarrow> s))"

definition assign :: "Errors \<Rightarrow> string \<Rightarrow> strslice \<Rightarrow> panic + Errors" where
  "assign errors field s =
     (case errors of
        NilErrors \<Rightarrow> Inl AssignmentToNilMap
      | Errs m \<Rightarrow> Inr (Errs (m(field \<mapsto> s))))"

text \<open>\<open>Lengthable\<close>: a slice or a map; \<open>len\<close> is the number of elements or of keys.\<close>

datatype ('q, 'u) Lengthable = Slice "'q list" | MapOf "('u, 'q) fmap"

fun len :: "('q, 'u) Lengthable \<Rightarrow> int" where
  "len (Slice xs) = int (length xs)"
| "len (MapOf m) = int (fcard (fmdom m))"

text \<open>\<open>NumericComparable\<close>: the signed and unsigned integer types. A value of the type
  parameter is a word of the type's width; the signedness decides how two words compare
  and how \<open>%d\<close> prints them.\<close>

datatype NumericComparable = Signed | Unsigned

definition less_T :: "NumericComparable \<Rightarrow> 'a::len word \<Rightarrow> 'a word \<Rightarrow> bool" where
  "less_T T a b = (case T of Signed \<Rightarrow> a <s b | Unsigned \<Rightarrow> a < b)"

definition value_T :: "NumericComparable \<Rightarrow> 'a::len word \<Rightarrow> int" where
  "value_T T a = (case T of Signed \<Rightarrow> sint a | Unsigned \<Rightarrow> uint a)"

subsection \<open>The \<open>Is*\<close> family\<close>

text \<open>
  \<open>AddError\<close> is the statement \<^verbatim>\<open>errors[field] = append(errors[field], msg)\<close>: the
  slice under the key is read, \<open>append\<close> runs on the heap, and the slice it returns is
  stored under the key. Every function takes the heap last and returns the accumulator
  with the heap, or a panic. Each check first builds its message and then tests the value.
  \<open>fmt.Sprintf\<close> is only called with the constant formats below and integer operands (and
  the word \<open>entry\<close> or \<open>entries\<close> for \<open>%s\<close>), so each call is written as the text it
  produces: the pieces of the format with the decimal form of each operand in place of its
  \<open>%d\<close>.
\<close>

definition AddError :: "string \<Rightarrow> Errors \<Rightarrow> string \<Rightarrow> heap \<Rightarrow> panic + Errors \<times> heap" where
  "AddError field errors msg h =
     (case go_append (index errors field) msg h of
        (s, h') \<Rightarrow> (case assign errors field s of Inl p \<Rightarrow> Inl p | Inr e \<Rightarrow> Inr (e, h')))"

definition IsStringLength ::
  "string \<Rightarrow> Errors \<Rightarrow> string \<Rightarrow> int \<Rightarrow> int \<Rightarrow> heap \<Rightarrow> panic + Errors \<times> heap" where
  "IsStringLength field errors v m n h =
     (let msg = (if m = n then ''Must be exactly '' @ fmt_d m @ '' characters long''
                 else ''Must be between '' @ fmt_d m @ '' and '' @ fmt_d n @ '' characters long'')
      in if int (length v) < m \<or> int (length v) > n then AddError field errors msg h
         else Inr (errors, h))"

definition IsNumberBetween ::
  "NumericComparable \<Rightarrow> string \<Rightarrow> Errors \<Rightarrow> 'a::len word \<Rightarrow> 'a word \<Rightarrow> 'a word \<Rightarrow> heap
     \<Rightarrow> panic + Errors \<times> heap" where
  "IsNumberBetween T field errors v m n h =
     (let msg = (if m = n
                 then ''Must be exactly '' @ fmt_d (value_T T m) @ '', but was '' @ fmt_d (value_T T v)
                 else ''Must be between '' @ fmt_d (value_T T m) @ '' and '' @ fmt_d (value_T T n)
                        @ '', but was '' @ fmt_d (value_T T v))
      in if less_T T v m \<or> less_T T n v then AddError field errors msg h
         else Inr (errors, h))"

definition IsSize ::
  "string \<Rightarrow> Errors \<Rightarrow> ('q, 'u) Lengthable \<Rightarrow> int \<Rightarrow> int \<Rightarrow> heap \<Rightarrow> panic + Errors \<times> heap" where
  "IsSize field errors v m n h =
     (let msg = (if m = n
                 then ''Must have exactly '' @ fmt_d m @ '' entries, but had '' @ fmt_d (len v)
                 else ''Must have between '' @ fmt_d m @ '' and '' @ fmt_d n
                        @ '' entries, but had '' @ fmt_d (len v))
      in if len v < m \<or> len v > n then AddError field errors msg h
         else Inr (errors, h))"

definition IsMinSize ::
  "string \<Rightarrow> Errors \<Rightarrow> ('q, 'u) Lengthable \<Rightarrow> int \<Rightarrow> heap \<Rightarrow> panic + Errors \<times> heap" where
  "IsMinSize field errors v n h =
     (let entry = (if n > 1 then ''entries'' else ''entry'');
          msg = ''Must have a minimum of '' @ fmt_d n @ '' '' @ entry @ '', but had '' @ fmt_d (len v)
      in if len v < n then AddError field errors msg h
         else Inr (errors, h))"

definition IsRegex ::
  "string \<Rightarrow> Errors \<Rightarrow> string \<Rightarrow> Regexp option \<Rightarrow> string \<Rightarrow> heap \<Rightarrow> panic + Errors \<times> heap" where
  "IsRegex field errors v rx message h =
     (case rx of
        None \<Rightarrow> Inl NilPointerDereference
      | Some r \<Rightarrow> if \<not> MatchString r v then AddError field errors message h else Inr (errors, h))"

definition IsEmail :: "string \<Rightarrow> Errors \<Rightarrow> string \<Rightarrow> heap \<Rightarrow> panic + Errors \<times> heap" where
  "IsEmail field errors v h = IsRegex field errors v (Some EmailRx) ''Email address is invalid'' h"

subsection \<open>The \<open>Validate\<close> family\<close>

text \<open>
  \<open>Validate\<close> is \<^verbatim>\<open>if err != nil { errors[field] = append(errors[field], err.Error()) }\<close>.
  An \<open>error\<close> argument is nil (\<open>None\<close>) or an error value. Each check calls its closure
  first and passes the result to \<open>Validate\<close>; the closure returns \<open>fmt.Errorf(msg)\<close>, with
  the message as the format, when the value is rejected, and nil otherwise.
\<close>

definition Validate :: "string \<Rightarrow> Errors \<Rightarrow> error option \<Rightarrow> heap \<Rightarrow> panic + Errors \<times> heap" where
  "Validate field errors err h =
     (case err of
        Some e \<Rightarrow>
          (case go_append (index errors field) (Error e) h of
             (s, h') \<Rightarrow> (case assign errors field s of Inl p \<Rightarrow> Inl p | Inr e' \<Rightarrow> Inr (e', h')))
      | None \<Rightarrow> Inr (errors, h))"

definition StringLength ::
  "string \<Rightarrow> Errors \<Rightarrow> string \<Rightarrow> int \<Rightarrow> int \<Rightarrow> heap \<Rightarrow> panic + Errors \<times> heap" where
  "StringLength field errors v m n h =
     Validate field errors
       (let msg = (if m = n then ''Must be exactly '' @ fmt_d m @ '' characters long''
                   else ''Must be between '' @ fmt_d m @ '' and '' @ fmt_d n @ '' characters long'')
        in if int (length v) < m \<or> int (length v) > n then Some (Errorf msg) else None) h"

definition NumberBetween ::
  "NumericComparable \<Rightarrow> string \<Rightarrow> Errors \<Rightarrow> 'a::len word \<Rightarrow> 'a word \<Rightarrow> 'a word \<Rightarrow> heap
     \<Rightarrow> panic + Errors \<times> heap" where
  "NumberBetween T field errors v m n h =
     Validate field errors
       (let msg = (if m = n
                   then ''Must be exactly '' @ fmt_d (value_T T m) @ '', but was '' @ fmt_d (value_T T v)
                   else ''Must be between '' @ fmt_d (value_T T m) @ '' and '' @ fmt_d (value_T T n)
                          @ '', but was '' @ fmt_d (value_T T v))
        in if less_T T v m \<or> less_T T n v then Some (Errorf msg) else None) h"

definition Size ::
  "string \<Rightarrow> Errors \<Rightarrow> ('q, 'u) Lengthable \<Rightarrow> int \<Rightarrow> int \<Rightarrow> heap \<Rightarrow> panic + Errors \<times> heap" where
  "Size field errors v m n h =
     Validate field errors
       (let msg = (if m = n
                   then ''Must have exactly '' @ fmt_d m @ '' entries, but had '' @ fmt_d (len v)
                   else ''Must have between '' @ fmt_d m @ '' and '' @ fmt_d n
                          @ '' entries, but had '' @ fmt_d (len v))
        in if len v < m \<or> len v > n then Some (Errorf msg) else None) h"

definition MinSize ::
  "string \<Rightarrow> Errors \<Rightarrow> ('q, 'u) Lengthable \<Rightarrow> int \<Rightarrow> heap \<Rightarrow> panic + Errors \<times> heap" where
  "MinSize field errors v n h =
     Validate field errors
       (let entry = (if n > 1 then ''entries'' else ''entry'');
            msg = ''Must have a minimum of '' @ fmt_d n @ '' '' @ entry @ '', but had '' @ fmt_d (len v)
        in if len v < n then Some (Errorf msg) else None) h"

definition Regex ::
  "string \<Rightarrow> Errors \<Rightarrow> string \<Rightarrow> Regexp option \<Rightarrow> string \<Rightarrow> heap \<Rightarrow> panic + Errors \<times> heap" where
  "Regex field errors v rx message h =
     (case rx of
        None \<Rightarrow> Inl NilPointerDereference
      | Some r \<Rightarrow>
          Validate field errors (if \<not> MatchString r v then Some (Errorf message) else None) h)"

definition Email :: "string \<Rightarrow> Errors \<Rightarrow> string \<Rightarrow> heap \<Rightarrow> panic + Errors \<times> heap" where
  "Email field errors v h =
     Validate field errors
       (if \<not> MatchString EmailRx v then Some (Errorf ''Email address is invalid'') else None) h"

section \<open>Notions used in the statements\<close>

text \<open>The sequence of messages under a key: the elements that the slice stored under the
  key shows in the heap, and the empty sequence for a missing key.\<close>

definition messages :: "Errors \<Rightarrow> heap \<Rightarrow> string \<Rightarrow> string list" where
  "messages errors h field = elems h (index errors field)"

text \<open>The same for the result of a check, \<open>None\<close> standing for a panic.\<close>

definition recorded :: "panic + Errors \<times> heap \<Rightarrow> string \<Rightarrow> string list option" where
  "recorded result field =
     (case result of Inl p \<Rightarrow> None | Inr (errors, h) \<Rightarrow> Some (messages errors h field))"

text \<open>\<open>appends_message field h m msg result\<close>: the check returns the map \<open>m\<close> with a new
  slice under \<open>field\<close> and no other key touched, and the sequence under \<open>field\<close> is the
  one before the call with \<open>msg\<close> added at the end.\<close>

definition appends_message ::
  "string \<Rightarrow> heap \<Rightarrow> (string \<rightharpoonup> strslice) \<Rightarrow> string \<Rightarrow> panic + Errors \<times> heap \<Rightarrow> bool" where
  "appends_message field h m msg result =
     (\<exists>s h'. result = Inr (Errs (m(field \<mapsto> s)), h')
        \<and> elems h' s = messages (Errs m) h field @ [msg])"

text \<open>\<open>separate h m\<close>: every slice of the accumulator is within its capacity and in
  allocated memory, and no two keys have slices on the same backing array.\<close>

definition separate :: "heap \<Rightarrow> (string \<rightharpoonup> strslice) \<Rightarrow> bool" where
  "separate h m =
     ((\<forall>k s. m k = Some s \<longrightarrow> slen s \<le> scap s \<and> (0 < scap s \<longrightarrow> arr s < top h))
      \<and> (\<forall>k k' s s'. k \<noteq> k' \<longrightarrow> m k = Some s \<longrightarrow> m k' = Some s' \<longrightarrow>
             0 < scap s \<longrightarrow> 0 < scap s' \<longrightarrow> arr s \<noteq> arr s'))"

text \<open>\<open>keeps_other_fields field h m result\<close>: the check returns normally, and every key
  other than \<open>field\<close> has the entry it had, or none if it had none, with the same
  sequence of messages.\<close>

definition keeps_other_fields ::
  "string \<Rightarrow> heap \<Rightarrow> (string \<rightharpoonup> strslice) \<Rightarrow> panic + Errors \<times> heap \<Rightarrow> bool" where
  "keeps_other_fields field h m result =
     (\<exists>m' h'. result = Inr (Errs m', h')
        \<and> (\<forall>g. g \<noteq> field \<longrightarrow> m' g = m g \<and> messages (Errs m') h' g = messages (Errs m) h g))"

text \<open>\<open>check_effect violated field h m result\<close>: when the constraint is violated, exactly
  one message is appended under \<open>field\<close>, and nothing else changes if the slices of the
  accumulator are separate; when it is satisfied, the accumulator and the heap are
  returned as they were.\<close>

definition check_effect ::
  "bool \<Rightarrow> string \<Rightarrow> heap \<Rightarrow> (string \<rightharpoonup> strslice) \<Rightarrow> panic + Errors \<times> heap \<Rightarrow> bool" where
  "check_effect violated field h m result =
     (if violated
      then (\<exists>msg. appends_message field h m msg result)
           \<and> (separate h m \<longrightarrow> keeps_other_fields field h m result)
      else result = Inr (Errs m, h))"

text \<open>\<open>range_contract q lo hi field h m result\<close>: a message has been appended under
  \<open>field\<close> exactly when \<open>q < lo\<close> or \<open>hi < q\<close>, and the accumulator is returned as it was
  exactly when \<open>lo \<le> q \<le> hi\<close>.\<close>

definition range_contract ::
  "int \<Rightarrow> int \<Rightarrow> int \<Rightarrow> string \<Rightarrow> heap \<Rightarrow> (string \<rightharpoonup> strslice) \<Rightarrow> panic + Errors \<times> heap \<Rightarrow> bool" where
  "range_contract q lo hi field h m result =
     (((\<exists>msg. appends_message field h m msg result) \<longleftrightarrow> (q < lo \<or> hi < q))
      \<and> ((result = Inr (Errs m, h)) \<longleftrightarrow> (lo \<le> q \<and> q \<le> hi)))"

text \<open>The message texts of the length, numeric-range, size-range and minimum-size checks,
  as functions of the bounds and of the measured quantity.\<close>

definition length_message :: "int \<Rightarrow> int \<Rightarrow> string" where
  "length_message m n =
     (if m = n then ''Must be exactly '' @ fmt_d m @ '' characters long''
      else ''Must be between '' @ fmt_d m @ '' and '' @ fmt_d n @ '' characters long'')"

definition number_message :: "int \<Rightarrow> int \<Rightarrow> int \<Rightarrow> string" where
  "number_message m n v =
     (if m = n then ''Must be exactly '' @ fmt_d m @ '', but was '' @ fmt_d v
      else ''Must be between '' @ fmt_d m @ '' and '' @ fmt_d n @ '', but was '' @ fmt_d v)"

definition size_message :: "int \<Rightarrow> int \<Rightarrow> int \<Rightarrow> string" where
  "size_message m n k =
     (if m = n then ''Must have exactly '' @ fmt_d m @ '' entries, but had '' @ fmt_d k
      else ''Must have between '' @ fmt_d m @ '' and '' @ fmt_d n @ '' entries, but had '' @ fmt_d k)"

definition min_size_message :: "int \<Rightarrow> int \<Rightarrow> string" where
  "min_size_message n k =
     ''Must have a minimum of '' @ fmt_d n @ '' '' @ (if n \<le> 1 then ''entry'' else ''entries'')
       @ '', but had '' @ fmt_d k"

text \<open>States for the examples: a heap with nothing allocated, in which the runtime gives a
  new array as much spare capacity as it has elements; and the accumulator
  \<^verbatim>\<open>Errors{"a": back[:1], "b": back[:2]}\<close> over \<^verbatim>\<open>back := []string{"p", "q"}\<close>,
  whose two slices share the array \<open>back\<close>.\<close>

definition empty_heap :: heap where
  "empty_heap = \<lparr>cells = (\<lambda>a i. []), top = 0, spare = (\<lambda>n. n)\<rparr>"

definition shared_heap :: heap where
  "shared_heap = \<lparr>cells = (\<lambda>a i. if a = 0 then (if i = 0 then ''p'' else if i = 1 then ''q'' else [])
                                   else []),
                  top = 1, spare = (\<lambda>n. n)\<rparr>"

definition shared_errors :: "string \<rightharpoonup> strslice" where
  "shared_errors = [''a'' \<mapsto> \<lparr>arr = 0, off = 0, slen = 1, scap = 2\<rparr>,
                    ''b'' \<mapsto> \<lparr>arr = 0, off = 0, slen = 2, scap = 2\<rparr>]"

text \<open>And an accumulator with two keys whose slices are full and lie on two arrays.\<close>

definition pair_heap :: heap where
  "pair_heap = \<lparr>cells = (\<lambda>a i. if a = 0 \<and> i = 0 then ''taken''
                                 else if a = 1 \<and> i = 0 then ''short'' else []),
                top = 2, spare = (\<lambda>n. n)\<rparr>"

definition pair_errors :: "string \<rightharpoonup> strslice" where
  "pair_errors = [''name'' \<mapsto> \<lparr>arr = 0, off = 0, slen = 1, scap = 1\<rparr>,
                  ''email'' \<mapsto> \<lparr>arr = 1, off = 0, slen = 1, scap = 1\<rparr>]"

text \<open>The language of a regular expression, against which the derivative matcher is
  checked.\<close>

definition conc :: "string set \<Rightarrow> string set \<Rightarrow> string set" where
  "conc A B = {u @ v | u v. u \<in> A \<and> v \<in> B}"

inductive_set star :: "string set \<Rightarrow> string set" for A :: "string set" where
  star_empty: "[] \<in> star A"
| star_step: "u \<in> A \<Longrightarrow> v \<in> star A \<Longrightarrow> u @ v \<in> star A"

fun lang :: "rexp \<Rightarrow> string set" where
  "lang Zero = {}"
| "lang One = {[]}"
| "lang (Byte c) = {[c]}"
| "lang NotSpace = {[a] | a. \<not> is_space a}"
| "lang (Alt r s) = lang r \<union> lang s"
| "lang (Cat r s) = conc (lang r) (lang s)"
| "lang (Star r) = star (lang r)"

section \<open>Facts about the library model\<close>

subsection \<open>A format without \<open>%\<close> is returned as it stands\<close>

lemma digit_char_not_percent: "d < 10 \<Longrightarrow> digit_char d \<noteq> CHR ''%''"
proof -
  assume "d < 10"
  then have "d \<in> {0, 1, 2, 3, 4, 5, 6, 7, 8, 9}" by auto
  then show ?thesis by (auto simp: digit_char_def)
qed

lemma fmt_nat_no_percent: "CHR ''%'' \<notin> set (fmt_nat u)"
proof (induction u rule: fmt_nat.induct)
  case (1 u)
  show ?case
  proof (cases "u < 10")
    case True
    then show ?thesis
      using digit_char_not_percent [of u] by (simp add: fmt_nat.simps [of u])
  next
    case False
    have "u mod 10 < 10" by simp
    then have "digit_char (u mod 10) \<noteq> CHR ''%''" by (rule digit_char_not_percent)
    then show ?thesis
      using False 1 by (auto simp: fmt_nat.simps [of u])
  qed
qed

lemma fmt_d_no_percent: "CHR ''%'' \<notin> set (fmt_d i)"
  by (simp add: fmt_d_def fmt_nat_no_percent)

lemma doPrintf_plain: "CHR ''%'' \<notin> set s \<Longrightarrow> doPrintf s = s"
  by (induction s) auto

lemma less_T_iff: "less_T T a b \<longleftrightarrow> value_T T a < value_T T b"
  by (cases T) (simp_all add: less_T_def value_T_def word_sless_alt word_less_def)

lemma value_T_eq_iff: "value_T T a = value_T T b \<longleftrightarrow> a = b"
  by (cases T) (auto simp: value_T_def intro: signed_word_eqI unsigned_word_eqI)

subsection \<open>The derivative matcher decides the language of the expression\<close>

lemma nullable_lang: "nullable r \<longleftrightarrow> [] \<in> lang r"
  by (induction r) (auto simp: conc_def intro: star_empty)

lemma conc_cons:
  "a # w \<in> conc A B \<longleftrightarrow>
     ([] \<in> A \<and> a # w \<in> B) \<or> (\<exists>u v. w = u @ v \<and> a # u \<in> A \<and> v \<in> B)"
proof
  assume "a # w \<in> conc A B"
  then obtain u v where uv: "a # w = u @ v" "u \<in> A" "v \<in> B"
    by (auto simp: conc_def)
  show "([] \<in> A \<and> a # w \<in> B) \<or> (\<exists>u v. w = u @ v \<and> a # u \<in> A \<and> v \<in> B)"
  proof (cases u)
    case Nil
    with uv show ?thesis by simp
  next
    case (Cons b u')
    with uv have "w = u' @ v" "a # u' \<in> A" by auto
    with uv show ?thesis by blast
  qed
next
  assume "([] \<in> A \<and> a # w \<in> B) \<or> (\<exists>u v. w = u @ v \<and> a # u \<in> A \<and> v \<in> B)"
  then show "a # w \<in> conc A B"
  proof
    assume "[] \<in> A \<and> a # w \<in> B"
    then have "[] @ (a # w) \<in> conc A B" unfolding conc_def by blast
    then show ?thesis by simp
  next
    assume "\<exists>u v. w = u @ v \<and> a # u \<in> A \<and> v \<in> B"
    then obtain u v where "w = u @ v" "a # u \<in> A" "v \<in> B" by blast
    then have "(a # u) @ v \<in> conc A B" unfolding conc_def by blast
    with \<open>w = u @ v\<close> show ?thesis by simp
  qed
qed

lemma star_cons_split:
  "x \<in> star A \<Longrightarrow> x = a # w \<Longrightarrow> \<exists>u v. w = u @ v \<and> a # u \<in> A \<and> v \<in> star A"
proof (induction arbitrary: w rule: star.induct)
  case star_empty
  then show ?case by simp
next
  case (star_step u v)
  show ?case
  proof (cases u)
    case Nil
    with star_step show ?thesis by simp
  next
    case (Cons b u')
    with star_step have "w = u' @ v" "a # u' \<in> A" by auto
    with star_step show ?thesis by blast
  qed
qed

lemma star_cons:
  "a # w \<in> star A \<longleftrightarrow> (\<exists>u v. w = u @ v \<and> a # u \<in> A \<and> v \<in> star A)"
proof
  assume "a # w \<in> star A"
  then show "\<exists>u v. w = u @ v \<and> a # u \<in> A \<and> v \<in> star A"
    by (rule star_cons_split) simp
next
  assume "\<exists>u v. w = u @ v \<and> a # u \<in> A \<and> v \<in> star A"
  then obtain u v where "w = u @ v" "a # u \<in> A" "v \<in> star A" by blast
  then have "(a # u) @ v \<in> star A" by (blast intro: star_step)
  with \<open>w = u @ v\<close> show "a # w \<in> star A" by simp
qed

lemma lang_deriv: "w \<in> lang (deriv a r) \<longleftrightarrow> a # w \<in> lang r"
proof (induction r arbitrary: w)
  case (Cat r s)
  have "w \<in> conc (lang (deriv a r)) (lang s) \<longleftrightarrow> (\<exists>u v. w = u @ v \<and> a # u \<in> lang r \<and> v \<in> lang s)"
    using Cat.IH(1) by (auto simp: conc_def)
  then show ?case
    using Cat.IH(2) by (auto simp: conc_cons nullable_lang)
next
  case (Star r)
  have "w \<in> conc (lang (deriv a r)) (star (lang r)) \<longleftrightarrow>
        (\<exists>u v. w = u @ v \<and> a # u \<in> lang r \<and> v \<in> star (lang r))"
    using Star.IH by (auto simp: conc_def)
  then show ?case by (simp add: star_cons)
qed auto

lemma matches_lang: "matches r w \<longleftrightarrow> w \<in> lang r"
  by (induction w arbitrary: r) (simp_all add: nullable_lang lang_deriv)

lemma star_NotSpace: "w \<in> star (lang NotSpace) \<longleftrightarrow> (\<forall>c\<in>set w. \<not> is_space c)"
proof
  assume "w \<in> star (lang NotSpace)"
  then show "\<forall>c\<in>set w. \<not> is_space c"
    by (induction rule: star.induct) auto
next
  assume "\<forall>c\<in>set w. \<not> is_space c"
  then show "w \<in> star (lang NotSpace)"
  proof (induction w)
    case Nil
    show ?case by (rule star_empty)
  next
    case (Cons a w)
    then have "[a] \<in> lang NotSpace" "w \<in> star (lang NotSpace)" by auto
    then have "[a] @ w \<in> star (lang NotSpace)" by (rule star_step)
    then show ?case by simp
  qed
qed

lemma lang_Plus_NotSpace:
  "w \<in> lang (Plus NotSpace) \<longleftrightarrow> w \<noteq> [] \<and> (\<forall>c\<in>set w. \<not> is_space c)"
proof (cases w)
  case Nil
  then show ?thesis by (auto simp: Plus_def conc_def)
next
  case (Cons a u)
  have "a # u \<in> conc (lang NotSpace) (star (lang NotSpace)) \<longleftrightarrow>
        \<not> is_space a \<and> u \<in> star (lang NotSpace)"
    by (auto simp: conc_cons)
  then show ?thesis
    using Cons star_NotSpace [of u] by (simp add: Plus_def)
qed

lemma not_space_at: "\<not> is_space CHR ''@''"
  by (simp add: is_space_def)

lemma EmailRx_matches:
  "MatchString EmailRx v \<longleftrightarrow>
     (\<forall>c\<in>set v. \<not> is_space c) \<and> (\<exists>a b. v = a @ [CHR ''@''] @ b \<and> a \<noteq> [] \<and> b \<noteq> [])"
proof -
  have "MatchString EmailRx v \<longleftrightarrow>
        v \<in> conc (lang (Plus NotSpace)) (conc {[CHR ''@'']} (lang (Plus NotSpace)))"
    by (simp add: EmailRx_def matches_lang)
  also have "\<dots> \<longleftrightarrow>
        (\<exists>a b. v = a @ [CHR ''@''] @ b \<and> a \<in> lang (Plus NotSpace) \<and> b \<in> lang (Plus NotSpace))"
    unfolding conc_def by blast
  also have "\<dots> \<longleftrightarrow>
        (\<forall>c\<in>set v. \<not> is_space c) \<and> (\<exists>a b. v = a @ [CHR ''@''] @ b \<and> a \<noteq> [] \<and> b \<noteq> [])"
  proof
    assume "\<exists>a b. v = a @ [CHR ''@''] @ b \<and> a \<in> lang (Plus NotSpace) \<and> b \<in> lang (Plus NotSpace)"
    then obtain a b where v: "v = a @ [CHR ''@''] @ b"
      and a: "a \<in> lang (Plus NotSpace)" and b: "b \<in> lang (Plus NotSpace)"
      by blast
    from a have a': "a \<noteq> []" "\<forall>c\<in>set a. \<not> is_space c"
      using lang_Plus_NotSpace [of a] by blast+
    from b have b': "b \<noteq> []" "\<forall>c\<in>set b. \<not> is_space c"
      using lang_Plus_NotSpace [of b] by blast+
    have "\<forall>c\<in>set v. \<not> is_space c"
      using v a'(2) b'(2) not_space_at by auto
    with v a'(1) b'(1)
    show "(\<forall>c\<in>set v. \<not> is_space c) \<and> (\<exists>a b. v = a @ [CHR ''@''] @ b \<and> a \<noteq> [] \<and> b \<noteq> [])"
      by blast
  next
    assume "(\<forall>c\<in>set v. \<not> is_space c) \<and> (\<exists>a b. v = a @ [CHR ''@''] @ b \<and> a \<noteq> [] \<and> b \<noteq> [])"
    then obtain a b where ns: "\<forall>c\<in>set v. \<not> is_space c"
      and v: "v = a @ [CHR ''@''] @ b" and ne: "a \<noteq> []" "b \<noteq> []"
      by blast
    from ns v have "\<forall>c\<in>set a. \<not> is_space c" "\<forall>c\<in>set b. \<not> is_space c" by auto
    with ne have "a \<in> lang (Plus NotSpace)" "b \<in> lang (Plus NotSpace)"
      using lang_Plus_NotSpace [of a] lang_Plus_NotSpace [of b] by blast+
    with v
    show "\<exists>a b. v = a @ [CHR ''@''] @ b \<and> a \<in> lang (Plus NotSpace) \<and> b \<in> lang (Plus NotSpace)"
      by blast
  qed
  finally show ?thesis .
qed

section \<open>What \<open>append\<close> does\<close>

lemma elems_shift: "elems h s = map (\<lambda>i. cells h (arr s) (off s + i)) [0 ..< slen s]"
proof -
  have "[off s ..< off s + slen s] = map (\<lambda>i. off s + i) [0 ..< slen s]"
    by (simp add: map_add_upt add.commute)
  then show ?thesis
    by (simp add: elems_def comp_def)
qed

lemma go_append_elems: "elems (snd (go_append s x h)) (fst (go_append s x h)) = elems h s @ [x]"
proof (cases "slen s < scap s")
  case True
  then show ?thesis
    by (simp add: go_append_def elems_shift)
next
  case False
  then show ?thesis
    by (simp add: go_append_def elems_shift Let_def)
qed

lemma elems_nil_slice: "elems h nil_slice = []"
  by (simp add: elems_def nil_slice_def)

lemma elems_empty: "slen s = 0 \<Longrightarrow> elems h s = []"
  by (simp add: elems_def)

text \<open>A slice that is empty, or that lies neither on the array that \<open>append\<close> writes
  into nor at the address of the next allocation, shows the same elements afterwards.\<close>

lemma go_append_elsewhere:
  assumes "slen t = 0 \<or> (arr t \<noteq> top h \<and> (slen s < scap s \<longrightarrow> arr t \<noteq> arr s))"
  shows "elems (snd (go_append s x h)) t = elems h t"
proof (cases "slen t = 0")
  case True
  then show ?thesis by (simp add: elems_empty)
next
  case False
  with assms have "arr t \<noteq> top h" "slen s < scap s \<longrightarrow> arr t \<noteq> arr s" by auto
  then show ?thesis
    by (simp add: go_append_def elems_def Let_def)
qed

section \<open>What \<open>AddError\<close> and \<open>Validate\<close> do\<close>

lemma AddError_NilErrors: "AddError f NilErrors msg h = Inl AssignmentToNilMap"
  by (simp add: AddError_def assign_def split: prod.splits)

lemma AddError_Errs:
  "AddError f (Errs m) msg h =
     Inr (Errs (m(f \<mapsto> fst (go_append (index (Errs m) f) msg h))),
          snd (go_append (index (Errs m) f) msg h))"
  by (simp add: AddError_def assign_def split: prod.splits)

lemma AddError_appends: "appends_message f h m msg (AddError f (Errs m) msg h)"
  unfolding appends_message_def AddError_Errs messages_def
  using go_append_elems [of "index (Errs m) f" msg h] by blast

lemma appends_message_recorded:
  "appends_message f h m msg r \<Longrightarrow> recorded r f = Some (messages (Errs m) h f @ [msg])"
  by (auto simp: appends_message_def recorded_def messages_def index_def)

lemma appends_message_inject:
  "appends_message f h m a r \<Longrightarrow> appends_message f h m b r \<Longrightarrow> a = b"
  by (drule appends_message_recorded)+ simp

lemma appends_message_changes: "appends_message f h m msg r \<Longrightarrow> r \<noteq> Inr (Errs m, h)"
proof
  assume "appends_message f h m msg r" and "r = Inr (Errs m, h)"
  then have "recorded (Inr (Errs m, h)) f = Some (messages (Errs m) h f @ [msg])"
    using appends_message_recorded by blast
  then show False
    by (simp add: recorded_def)
qed

lemma index_Some: "m g = Some t \<Longrightarrow> index (Errs m) g = t"
  by (simp add: index_def)

lemma index_None: "m g = None \<Longrightarrow> index (Errs m) g = nil_slice"
  by (simp add: index_def)

lemma separate_elsewhere:
  assumes sep: "separate h m" and ne: "g \<noteq> f" and g: "m g = Some t"
  shows "slen t = 0 \<or> (arr t \<noteq> top h \<and> (slen (index (Errs m) f) < scap (index (Errs m) f)
           \<longrightarrow> arr t \<noteq> arr (index (Errs m) f)))"
proof (cases "scap t = 0")
  case True
  moreover have "slen t \<le> scap t" using sep g by (auto simp: separate_def)
  ultimately show ?thesis by simp
next
  case False
  then have pos: "0 < scap t" by simp
  then have "arr t < top h" using sep g by (auto simp: separate_def)
  then have a: "arr t \<noteq> top h" by simp
  have b: "arr t \<noteq> arr (index (Errs m) f)" if lt: "slen (index (Errs m) f) < scap (index (Errs m) f)"
  proof (cases "m f")
    case None
    then show ?thesis using lt by (simp add: index_None nil_slice_def)
  next
    case (Some s)
    then have "0 < scap s" using lt by (simp add: index_Some)
    then have "arr t \<noteq> arr s"
      using sep ne g Some pos unfolding separate_def by blast
    then show ?thesis using Some by (simp add: index_Some)
  qed
  from a b show ?thesis by blast
qed

lemma AddError_keeps:
  assumes "separate h m"
  shows "keeps_other_fields f h m (AddError f (Errs m) msg h)"
proof -
  let ?s = "index (Errs m) f"
  let ?m' = "m(f \<mapsto> fst (go_append ?s msg h))"
  let ?h' = "snd (go_append ?s msg h)"
  have "m' g = m g \<and> messages (Errs m') h' g = messages (Errs m) h g"
    if "g \<noteq> f" "m' = ?m'" "h' = ?h'" for g m' h'
  proof (cases "m g")
    case None
    then show ?thesis using that by (simp add: messages_def index_def elems_nil_slice)
  next
    case (Some t)
    have "elems ?h' t = elems h t"
      by (rule go_append_elsewhere) (rule separate_elsewhere [OF assms that(1) Some])
    then show ?thesis using that Some by (simp add: messages_def index_def)
  qed
  then show ?thesis
    unfolding keeps_other_fields_def AddError_Errs by blast
qed

text \<open>Separate slices stay separate: the accumulators that the checks build up from an
  empty map are separate.\<close>

lemma separate_empty: "separate h Map.empty"
  by (simp add: separate_def)

lemma separate_distinct:
  "separate h m \<Longrightarrow> k \<noteq> k' \<Longrightarrow> m k = Some s \<Longrightarrow> m k' = Some s' \<Longrightarrow>
     0 < scap s \<Longrightarrow> 0 < scap s' \<Longrightarrow> arr s \<noteq> arr s'"
  unfolding separate_def by blast

lemma separate_update:
  assumes sep: "separate h m" and mono: "top h \<le> top h'"
    and valid: "slen s' \<le> scap s'" and alloc: "arr s' < top h'"
    and fresh: "\<And>g t. g \<noteq> f \<Longrightarrow> m g = Some t \<Longrightarrow> 0 < scap t \<Longrightarrow> arr t \<noteq> arr s'"
  shows "separate h' (m(f \<mapsto> s'))"
  unfolding separate_def
proof (intro conjI allI impI)
  fix k t assume kt: "(m(f \<mapsto> s')) k = Some t"
  show "slen t \<le> scap t"
  proof (cases "k = f")
    case True
    with kt valid show ?thesis by simp
  next
    case False
    with kt sep show ?thesis by (auto simp: separate_def)
  qed
next
  fix k t assume kt: "(m(f \<mapsto> s')) k = Some t" and pos: "0 < scap t"
  show "arr t < top h'"
  proof (cases "k = f")
    case True
    with kt alloc show ?thesis by simp
  next
    case False
    with kt have "m k = Some t" by simp
    with sep pos have "arr t < top h" by (auto simp: separate_def)
    with mono show ?thesis by simp
  qed
next
  fix k k' t t'
  assume ne: "k \<noteq> k'" and kt: "(m(f \<mapsto> s')) k = Some t" and kt': "(m(f \<mapsto> s')) k' = Some t'"
    and pos: "0 < scap t" "0 < scap t'"
  show "arr t \<noteq> arr t'"
  proof (cases "k = f")
    case True
    with ne kt kt' have "t = s'" "k' \<noteq> f" "m k' = Some t'" by auto
    with fresh [of k' t'] pos show ?thesis by auto
  next
    case False
    with kt have mk: "m k = Some t" by simp
    show ?thesis
    proof (cases "k' = f")
      case True
      with kt' have "t' = s'" by simp
      with fresh [OF False mk pos(1)] show ?thesis by simp
    next
      case False
      with kt' have "m k' = Some t'" by simp
      then show ?thesis
        by (rule separate_distinct [OF sep ne mk _ pos])
    qed
  qed
qed

lemma AddError_separate:
  assumes sep: "separate h m" and r: "AddError f (Errs m) msg h = Inr (Errs m', h')"
  shows "separate h' m'"
proof -
  let ?s = "index (Errs m) f"
  from r have m': "m' = m(f \<mapsto> fst (go_append ?s msg h))" and h': "h' = snd (go_append ?s msg h)"
    by (simp_all add: AddError_Errs)
  show ?thesis
  proof (cases "slen ?s < scap ?s")
    case True
    then obtain s where s: "m f = Some s"
      by (cases "m f") (auto simp: index_def nil_slice_def)
    then have ix: "?s = s" by (simp add: index_Some)
    from True ix have lt: "slen s < scap s" by simp
    then have new: "fst (go_append s msg h) = s\<lparr>slen := slen s + 1\<rparr>"
      and tp: "top (snd (go_append s msg h)) = top h"
      by (simp_all add: go_append_def)
    from lt have pos: "0 < scap s" by simp
    have "separate (snd (go_append s msg h)) (m(f \<mapsto> s\<lparr>slen := slen s + 1\<rparr>))"
    proof (rule separate_update [OF sep])
      show "top h \<le> top (snd (go_append s msg h))" by (simp add: tp)
      show "slen (s\<lparr>slen := slen s + 1\<rparr>) \<le> scap (s\<lparr>slen := slen s + 1\<rparr>)"
        using lt by simp
      show "arr (s\<lparr>slen := slen s + 1\<rparr>) < top (snd (go_append s msg h))"
        using sep s pos by (auto simp: tp separate_def)
      show "arr t \<noteq> arr (s\<lparr>slen := slen s + 1\<rparr>)"
        if "g \<noteq> f" "m g = Some t" "0 < scap t" for g t
      proof -
        have "arr t \<noteq> arr s"
          by (rule separate_distinct [OF sep that(1) that(2) s that(3) pos])
        then show ?thesis by simp
      qed
    qed
    then show ?thesis
      unfolding m' h' ix new .
  next
    case False
    let ?n = "\<lparr>arr = top h, off = 0, slen = slen ?s + 1, scap = slen ?s + 1 + spare h (slen ?s + 1)\<rparr>"
    from False have new: "fst (go_append ?s msg h) = ?n"
      and tp: "top (snd (go_append ?s msg h)) = Suc (top h)"
      by (simp_all add: go_append_def Let_def)
    have "separate (snd (go_append ?s msg h)) (m(f \<mapsto> ?n))"
    proof (rule separate_update [OF sep])
      show "top h \<le> top (snd (go_append ?s msg h))" by (simp add: tp)
      show "slen ?n \<le> scap ?n" by simp
      show "arr ?n < top (snd (go_append ?s msg h))" by (simp add: tp)
      show "arr t \<noteq> arr ?n" if "g \<noteq> f" "m g = Some t" "0 < scap t" for g t
      proof -
        from sep that have "arr t < top h" by (auto simp: separate_def)
        then show ?thesis by simp
      qed
    qed
    then show ?thesis
      unfolding m' h' new .
  qed
qed

section \<open>What each check does\<close>

text \<open>Both families come down to \<open>AddError\<close> with the message of the check, except that
  \<open>Regex\<close> passes the caller's message through \<open>fmt.Errorf\<close>.\<close>

lemma length_message_plain: "CHR ''%'' \<notin> set (length_message m n)"
  by (simp add: length_message_def fmt_d_no_percent)

lemma number_message_plain: "CHR ''%'' \<notin> set (number_message m n v)"
  by (simp add: number_message_def fmt_d_no_percent)

lemma size_message_plain: "CHR ''%'' \<notin> set (size_message m n k)"
  by (simp add: size_message_def fmt_d_no_percent)

lemma min_size_message_plain: "CHR ''%'' \<notin> set (min_size_message n k)"
  by (simp add: min_size_message_def fmt_d_no_percent)

lemma Validate_None: "Validate f errors None h = Inr (errors, h)"
  by (simp add: Validate_def)

lemma Validate_Errorf:
  "Validate f errors (Some (Errorf msg)) h = AddError f errors (doPrintf msg) h"
  by (simp add: Validate_def AddError_def Errorf_def)

lemma Validate_Errorf_plain:
  "CHR ''%'' \<notin> set msg \<Longrightarrow> Validate f errors (Some (Errorf msg)) h = AddError f errors msg h"
  by (simp add: Validate_Errorf doPrintf_plain)

lemma IsStringLength_eq:
  "IsStringLength f errors s lo hi h =
     (if int (length s) < lo \<or> hi < int (length s)
      then AddError f errors (length_message lo hi) h else Inr (errors, h))"
  by (simp add: IsStringLength_def length_message_def)

lemma StringLength_eq:
  "StringLength f errors s lo hi h =
     (if int (length s) < lo \<or> hi < int (length s)
      then AddError f errors (length_message lo hi) h else Inr (errors, h))"
proof -
  have "StringLength f errors s lo hi h =
        Validate f errors
          (if int (length s) < lo \<or> hi < int (length s)
           then Some (Errorf (length_message lo hi)) else None) h"
    by (simp add: StringLength_def length_message_def)
  then show ?thesis
    by (simp add: Validate_None Validate_Errorf_plain length_message_plain)
qed

lemma IsNumberBetween_eq:
  "IsNumberBetween T f errors v lo hi h =
     (if value_T T v < value_T T lo \<or> value_T T hi < value_T T v
      then AddError f errors (number_message (value_T T lo) (value_T T hi) (value_T T v)) h
      else Inr (errors, h))"
  by (simp add: IsNumberBetween_def number_message_def less_T_iff value_T_eq_iff)

lemma NumberBetween_eq:
  "NumberBetween T f errors v lo hi h =
     (if value_T T v < value_T T lo \<or> value_T T hi < value_T T v
      then AddError f errors (number_message (value_T T lo) (value_T T hi) (value_T T v)) h
      else Inr (errors, h))"
proof -
  have "NumberBetween T f errors v lo hi h =
        Validate f errors
          (if value_T T v < value_T T lo \<or> value_T T hi < value_T T v
           then Some (Errorf (number_message (value_T T lo) (value_T T hi) (value_T T v)))
           else None) h"
    by (simp add: NumberBetween_def number_message_def less_T_iff value_T_eq_iff)
  then show ?thesis
    by (simp add: Validate_None Validate_Errorf_plain number_message_plain)
qed

lemma IsSize_eq:
  "IsSize f errors c lo hi h =
     (if len c < lo \<or> hi < len c
      then AddError f errors (size_message lo hi (len c)) h else Inr (errors, h))"
  by (simp add: IsSize_def size_message_def)

lemma Size_eq:
  "Size f errors c lo hi h =
     (if len c < lo \<or> hi < len c
      then AddError f errors (size_message lo hi (len c)) h else Inr (errors, h))"
proof -
  have "Size f errors c lo hi h =
        Validate f errors
          (if len c < lo \<or> hi < len c then Some (Errorf (size_message lo hi (len c))) else None) h"
    by (simp add: Size_def size_message_def)
  then show ?thesis
    by (simp add: Validate_None Validate_Errorf_plain size_message_plain)
qed

lemma IsMinSize_eq:
  "IsMinSize f errors c n h =
     (if len c < n then AddError f errors (min_size_message n (len c)) h else Inr (errors, h))"
  by (simp add: IsMinSize_def min_size_message_def)

lemma MinSize_eq:
  "MinSize f errors c n h =
     (if len c < n then AddError f errors (min_size_message n (len c)) h else Inr (errors, h))"
proof -
  have "MinSize f errors c n h =
        Validate f errors
          (if len c < n then Some (Errorf (min_size_message n (len c))) else None) h"
    by (simp add: MinSize_def min_size_message_def)
  then show ?thesis
    by (simp add: Validate_None Validate_Errorf_plain min_size_message_plain)
qed

lemma IsRegex_eq:
  "IsRegex f errors s (Some rx) message h =
     (if MatchString rx s then Inr (errors, h) else AddError f errors message h)"
  by (simp add: IsRegex_def)

lemma Regex_eq:
  "Regex f errors s (Some rx) message h =
     (if MatchString rx s then Inr (errors, h) else AddError f errors (doPrintf message) h)"
  by (simp add: Regex_def Validate_None Validate_Errorf)

lemma IsEmail_eq:
  "IsEmail f errors s h =
     (if MatchString EmailRx s then Inr (errors, h)
      else AddError f errors ''Email address is invalid'' h)"
  by (simp add: IsEmail_def IsRegex_eq)

lemma Email_eq:
  "Email f errors s h =
     (if MatchString EmailRx s then Inr (errors, h)
      else AddError f errors ''Email address is invalid'' h)"
  by (simp add: Email_def Validate_None Validate_Errorf_plain)

text \<open>Apart from \<open>Regex\<close> on a message that contains \<open>%\<close>, the two families agree on
  every accumulator and heap, nil map included; a nil pattern panics in both.\<close>

lemma families_agree:
  "IsStringLength f errors s lo hi h = StringLength f errors s lo hi h"
  "IsNumberBetween T f errors v vlo vhi h = NumberBetween T f errors v vlo vhi h"
  "IsSize f errors c lo hi h = Size f errors c lo hi h"
  "IsMinSize f errors c n h = MinSize f errors c n h"
  "IsEmail f errors s h = Email f errors s h"
  "CHR ''%'' \<notin> set message \<Longrightarrow>
     IsRegex f errors s (Some rx) message h = Regex f errors s (Some rx) message h"
  by (simp_all add: IsStringLength_eq StringLength_eq IsNumberBetween_eq NumberBetween_eq
      IsSize_eq Size_eq IsMinSize_eq MinSize_eq IsEmail_eq Email_eq IsRegex_eq Regex_eq
      doPrintf_plain)

lemma families_agree_nil_pattern:
  "IsRegex f errors s None message h = Regex f errors s None message h"
  by (simp add: IsRegex_def Regex_def)

text \<open>On a nil accumulator a passing check returns normally and a failing check panics
  (the checks of the \<open>Validate\<close> family likewise, by \<open>families_agree\<close>).\<close>

lemma checks_on_nil:
  "IsStringLength f NilErrors s lo hi h =
     (if int (length s) < lo \<or> hi < int (length s) then Inl AssignmentToNilMap
      else Inr (NilErrors, h))"
  "IsNumberBetween T f NilErrors v vlo vhi h =
     (if value_T T v < value_T T vlo \<or> value_T T vhi < value_T T v
      then Inl AssignmentToNilMap else Inr (NilErrors, h))"
  "IsSize f NilErrors c lo hi h =
     (if len c < lo \<or> hi < len c then Inl AssignmentToNilMap else Inr (NilErrors, h))"
  "IsMinSize f NilErrors c n h =
     (if len c < n then Inl AssignmentToNilMap else Inr (NilErrors, h))"
  "IsRegex f NilErrors s (Some rx) message h =
     (if MatchString rx s then Inr (NilErrors, h) else Inl AssignmentToNilMap)"
  "IsEmail f NilErrors s h =
     (if MatchString EmailRx s then Inr (NilErrors, h) else Inl AssignmentToNilMap)"
  "Regex f NilErrors s (Some rx) message h =
     (if MatchString rx s then Inr (NilErrors, h) else Inl AssignmentToNilMap)"
  by (simp_all add: IsStringLength_eq IsNumberBetween_eq IsSize_eq IsMinSize_eq IsRegex_eq
      IsEmail_eq Regex_eq AddError_NilErrors)

text \<open>A container has no negative size, so a minimum below 1 is never violated.\<close>

lemma len_nonneg: "0 \<le> len c"
  by (cases c) simp_all

lemma MinSize_violation_positive: "len c < n \<Longrightarrow> 1 \<le> n"
  using len_nonneg [of c] by linarith

text \<open>The shapes in which the claims meet the checks.\<close>

lemma appends_if:
  "violated \<Longrightarrow>
     appends_message f h m msg (if violated then AddError f (Errs m) msg h else Inr (Errs m, h))"
  by (simp add: AddError_appends)

lemma keeps_unchanged: "keeps_other_fields f h m (Inr (Errs m, h))"
  by (simp add: keeps_other_fields_def)

lemma keeps_if:
  "separate h m \<Longrightarrow>
     keeps_other_fields f h m (if b then AddError f (Errs m) msg h else Inr (Errs m, h))"
  "separate h m \<Longrightarrow>
     keeps_other_fields f h m (if b then Inr (Errs m, h) else AddError f (Errs m) msg h)"
  by (simp_all add: keeps_unchanged AddError_keeps)

lemma check_effect_ifI:
  "check_effect violated f h m (if violated then AddError f (Errs m) msg h else Inr (Errs m, h))"
  using AddError_appends [of f h m msg] AddError_keeps [of h m f msg]
  by (auto simp: check_effect_def)

lemma check_effect_ifI':
  "check_effect (\<not> ok) f h m (if ok then Inr (Errs m, h) else AddError f (Errs m) msg h)"
  using AddError_appends [of f h m msg] AddError_keeps [of h m f msg]
  by (auto simp: check_effect_def)

lemma range_contract_ifI:
  "range_contract q lo hi f h m
     (if q < lo \<or> hi < q then AddError f (Errs m) msg h else Inr (Errs m, h))"
proof (cases "q < lo \<or> hi < q")
  case True
  then have "\<not> (lo \<le> q \<and> q \<le> hi)" by linarith
  with True show ?thesis
    using AddError_appends [of f h m msg] appends_message_changes [of f h m msg]
    by (auto simp: range_contract_def)
next
  case False
  then have "lo \<le> q \<and> q \<le> hi" by linarith
  with False show ?thesis
    using appends_message_changes [of f h m _ "Inr (Errs m, h)"]
    by (auto simp: range_contract_def)
qed

text \<open>Rules that evaluate the model on concrete inputs.\<close>

lemmas eval_fmt = fmt_d_def fmt_nat.simps digit_char_def fcard_fempty fcard_finsert_if

lemmas eval_EmailRx = EmailRx_def Plus_def is_space_def

lemmas eval_Errorf = directive_def argNumber_def starts_with_def parse_width_def
  parse_prec_def parse_verb_def decodeRune_def is_flag_def is_digit_def in_range_def

lemma noatsign_no_match: "\<not> MatchString EmailRx ''noatsign''"
  by (simp add: eval_EmailRx)

lemma messages_empty: "messages (Errs Map.empty) h f = []"
  by (simp add: messages_def index_def elems_nil_slice)

lemma if_AddError_separate:
  assumes "separate h m"
    and "(if b then AddError f (Errs m) msg h else Inr (Errs m, h)) = Inr (Errs m', h')"
  shows "separate h' m'"
proof (cases b)
  case True
  with assms(2) have "AddError f (Errs m) msg h = Inr (Errs m', h')" by simp
  with assms(1) show ?thesis by (rule AddError_separate)
next
  case False
  with assms show ?thesis by simp
qed

lemma if_AddError_separate':
  assumes "separate h m"
    and "(if b then Inr (Errs m, h) else AddError f (Errs m) msg h) = Inr (Errs m', h')"
  shows "separate h' m'"
proof (cases b)
  case False
  with assms(2) have "AddError f (Errs m) msg h = Inr (Errs m', h')" by simp
  with assms(1) show ?thesis by (rule AddError_separate)
next
  case True
  with assms show ?thesis by simp
qed

text \<open>Every check returns separate slices when it is given separate slices. The empty map
  is separate (\<open>separate_empty\<close>), so every accumulator that the checks build up from an
  empty map is.\<close>

lemma checks_keep_separate:
  assumes "separate h m"
  shows "IsStringLength f (Errs m) s lo hi h = Inr (Errs m', h') \<Longrightarrow> separate h' m'"
    and "StringLength f (Errs m) s lo hi h = Inr (Errs m', h') \<Longrightarrow> separate h' m'"
    and "IsNumberBetween T f (Errs m) v vlo vhi h = Inr (Errs m', h') \<Longrightarrow> separate h' m'"
    and "NumberBetween T f (Errs m) v vlo vhi h = Inr (Errs m', h') \<Longrightarrow> separate h' m'"
    and "IsSize f (Errs m) c lo hi h = Inr (Errs m', h') \<Longrightarrow> separate h' m'"
    and "Size f (Errs m) c lo hi h = Inr (Errs m', h') \<Longrightarrow> separate h' m'"
    and "IsMinSize f (Errs m) c n h = Inr (Errs m', h') \<Longrightarrow> separate h' m'"
    and "MinSize f (Errs m) c n h = Inr (Errs m', h') \<Longrightarrow> separate h' m'"
    and "IsRegex f (Errs m) s (Some rx) message h = Inr (Errs m', h') \<Longrightarrow> separate h' m'"
    and "Regex f (Errs m) s (Some rx) message h = Inr (Errs m', h') \<Longrightarrow> separate h' m'"
    and "IsEmail f (Errs m) s h = Inr (Errs m', h') \<Longrightarrow> separate h' m'"
    and "Email f (Errs m) s h = Inr (Errs m', h') \<Longrightarrow> separate h' m'"
  unfolding IsStringLength_eq StringLength_eq IsNumberBetween_eq NumberBetween_eq
    IsSize_eq Size_eq IsMinSize_eq MinSize_eq IsRegex_eq Regex_eq IsEmail_eq Email_eq
  by (erule if_AddError_separate [OF assms] if_AddError_separate' [OF assms])+

text \<open>The example states.\<close>

lemma keeps_other_fields_recorded:
  "keeps_other_fields f h m r \<Longrightarrow> g \<noteq> f \<Longrightarrow> recorded r g = Some (messages (Errs m) h g)"
  by (auto simp: keeps_other_fields_def recorded_def)

lemma shared_before:
  "messages (Errs shared_errors) shared_heap ''a'' = [''p'']"
  "messages (Errs shared_errors) shared_heap ''b'' = [''p'', ''q'']"
  by (simp_all add: messages_def index_def shared_errors_def shared_heap_def elems_shift
      upt_rec)

lemma shared_AddError:
  "recorded (AddError ''a'' (Errs shared_errors) msg shared_heap) ''a'' = Some [''p'', msg]"
  "recorded (AddError ''a'' (Errs shared_errors) msg shared_heap) ''b'' = Some [''p'', msg]"
  by (simp_all add: AddError_Errs recorded_def messages_def index_def shared_errors_def
      shared_heap_def go_append_def elems_shift upt_rec)

lemma pair_separate: "separate pair_heap pair_errors"
  by (auto simp: separate_def pair_heap_def pair_errors_def split: if_splits)

lemma pair_before:
  "messages (Errs pair_errors) pair_heap ''name'' = [''taken'']"
  "messages (Errs pair_errors) pair_heap ''email'' = [''short'']"
  "messages (Errs pair_errors) pair_heap ''phone'' = []"
  by (simp_all add: messages_def index_def pair_errors_def pair_heap_def elems_shift
      nil_slice_def upt_rec)

section \<open>The claims\<close>

subsection \<open>C1: a passing check changes nothing, a failing check appends one message\<close>

text \<open>
  C1, as amended. For every check function of both families, every field name, every
  accumulator and every input: if the constraint is satisfied the check returns the
  accumulator and the heap unchanged; if it is violated the check appends exactly one
  message to the sequence under the field's key, and it changes nothing else provided that
  no two keys of the accumulator hold slices on the same backing array (as is the case for
  every accumulator built up from an empty map by these checks). The constraint of each
  check is the one of the specification: the length, the numeric value (read as the integer
  the word denotes, signed or unsigned) or the size lies within the bounds, the size
  reaches the minimum, the pattern matches.
\<close>

theorem C1_check_effect:
  "check_effect (int (length s) < lo \<or> hi < int (length s)) f h m (IsStringLength f (Errs m) s lo hi h)
   \<and> check_effect (int (length s) < lo \<or> hi < int (length s)) f h m (StringLength f (Errs m) s lo hi h)
   \<and> check_effect (value_T T v < value_T T vlo \<or> value_T T vhi < value_T T v) f h m
        (IsNumberBetween T f (Errs m) v vlo vhi h)
   \<and> check_effect (value_T T v < value_T T vlo \<or> value_T T vhi < value_T T v) f h m
        (NumberBetween T f (Errs m) v vlo vhi h)
   \<and> check_effect (len c < lo \<or> hi < len c) f h m (IsSize f (Errs m) c lo hi h)
   \<and> check_effect (len c < lo \<or> hi < len c) f h m (Size f (Errs m) c lo hi h)
   \<and> check_effect (len c < n) f h m (IsMinSize f (Errs m) c n h)
   \<and> check_effect (len c < n) f h m (MinSize f (Errs m) c n h)
   \<and> check_effect (\<not> MatchString rx s) f h m (IsRegex f (Errs m) s (Some rx) message h)
   \<and> check_effect (\<not> MatchString rx s) f h m (Regex f (Errs m) s (Some rx) message h)
   \<and> check_effect (\<not> MatchString EmailRx s) f h m (IsEmail f (Errs m) s h)
   \<and> check_effect (\<not> MatchString EmailRx s) f h m (Email f (Errs m) s h)"
  unfolding IsStringLength_eq StringLength_eq IsNumberBetween_eq NumberBetween_eq
    IsSize_eq Size_eq IsMinSize_eq MinSize_eq IsRegex_eq Regex_eq IsEmail_eq Email_eq
  by (intro conjI check_effect_ifI check_effect_ifI')

theorem C1_check_effect_witness:
  "(\<exists>msg. recorded (IsStringLength ''name'' (Errs pair_errors) ''ab'' 3 5 pair_heap) ''name''
             = Some [''taken'', msg])
   \<and> recorded (IsStringLength ''name'' (Errs pair_errors) ''ab'' 3 5 pair_heap) ''email''
       = Some [''short'']
   \<and> recorded (IsStringLength ''name'' (Errs pair_errors) ''ab'' 3 5 pair_heap) ''phone''
       = Some []
   \<and> StringLength ''name'' (Errs pair_errors) ''abcd'' 3 5 pair_heap
       = Inr (Errs pair_errors, pair_heap)"
proof -
  have c: "check_effect True ''name'' pair_heap pair_errors
             (IsStringLength ''name'' (Errs pair_errors) ''ab'' 3 5 pair_heap)"
    using C1_check_effect [THEN conjunct1, of "''ab''" 3 5 "''name''" pair_heap pair_errors]
    by simp
  then obtain msg where a: "appends_message ''name'' pair_heap pair_errors msg
             (IsStringLength ''name'' (Errs pair_errors) ''ab'' 3 5 pair_heap)"
    by (auto simp: check_effect_def)
  from c have k: "keeps_other_fields ''name'' pair_heap pair_errors
             (IsStringLength ''name'' (Errs pair_errors) ''ab'' 3 5 pair_heap)"
    using pair_separate by (simp add: check_effect_def)
  have u: "StringLength ''name'' (Errs pair_errors) ''abcd'' 3 5 pair_heap
       = Inr (Errs pair_errors, pair_heap)"
    using C1_check_effect [THEN conjunct2, THEN conjunct1,
        of "''abcd''" 3 5 "''name''" pair_heap pair_errors]
    by (simp add: check_effect_def)
  show ?thesis
    using appends_message_recorded [OF a]
      keeps_other_fields_recorded [OF k, of "''email''"]
      keeps_other_fields_recorded [OF k, of "''phone''"] u
    by (simp add: pair_before)
qed

text \<open>The claim as first stated has no proviso. On
  \<^verbatim>\<open>Errors{"a": back[:1], "b": back[:2]}\<close> a failing check on \<open>a\<close> appends in place,
  into the cell of \<open>back\<close> that \<open>b\<close> shows as its second message, so the sequence under
  \<open>b\<close> changes from \<open>p, q\<close> to \<open>p\<close> and the new message.\<close>

theorem C1_counterexample:
  "messages (Errs shared_errors) shared_heap ''b'' = [''p'', ''q'']
   \<and> recorded (IsEmail ''a'' (Errs shared_errors) ''noatsign'' shared_heap) ''a''
       = Some [''p'', ''Email address is invalid'']
   \<and> recorded (IsEmail ''a'' (Errs shared_errors) ''noatsign'' shared_heap) ''b''
       = Some [''p'', ''Email address is invalid'']"
  by (simp add: shared_before IsEmail_eq noatsign_no_match shared_AddError)

subsection \<open>C2: a range check appends a message exactly when the quantity is out of range\<close>

text \<open>
  C2. For every range check with inclusive bounds, of both families, a message is appended
  to the field's sequence if and only if the measured quantity is strictly less than the
  lower bound or strictly greater than the upper bound, and the accumulator is not changed
  when the quantity lies within the bounds. The quantity is the length of the string in
  bytes, the integer that the numeric value denotes (for a word of any width, read as
  signed or as unsigned, so that the machine comparison of the code agrees with the order
  of the integers), or the number of elements or keys of the container.
\<close>

theorem C2_range_violation_iff:
  "range_contract (int (length s)) lo hi f h m (IsStringLength f (Errs m) s lo hi h)
   \<and> range_contract (int (length s)) lo hi f h m (StringLength f (Errs m) s lo hi h)
   \<and> range_contract (value_T T v) (value_T T vlo) (value_T T vhi) f h m
        (IsNumberBetween T f (Errs m) v vlo vhi h)
   \<and> range_contract (value_T T v) (value_T T vlo) (value_T T vhi) f h m
        (NumberBetween T f (Errs m) v vlo vhi h)
   \<and> range_contract (len c) lo hi f h m (IsSize f (Errs m) c lo hi h)
   \<and> range_contract (len c) lo hi f h m (Size f (Errs m) c lo hi h)"
  unfolding IsStringLength_eq StringLength_eq IsNumberBetween_eq NumberBetween_eq
    IsSize_eq Size_eq
  by (intro conjI range_contract_ifI)

theorem C2_range_violation_iff_witness:
  "IsNumberBetween Signed ''age'' (Errs Map.empty) (- 128 :: 8 word) (- 128) 127 empty_heap
     = Inr (Errs Map.empty, empty_heap)
   \<and> (\<exists>msg. appends_message ''age'' empty_heap Map.empty msg
               (NumberBetween Signed ''age'' (Errs Map.empty) (255 :: 8 word) 0 127 empty_heap))
   \<and> NumberBetween Unsigned ''age'' (Errs Map.empty) (255 :: 8 word) 0 255 empty_heap
     = Inr (Errs Map.empty, empty_heap)
   \<and> (\<exists>msg. appends_message ''tags'' empty_heap Map.empty msg
               (IsSize ''tags'' (Errs Map.empty) (Slice [True, False, True] :: (bool, nat) Lengthable)
                  1 2 empty_heap))"
  using C2_range_violation_iff [THEN conjunct2, THEN conjunct2, THEN conjunct1,
          of Signed "- 128 :: 8 word" "- 128" 127 "''age''" empty_heap Map.empty]
    C2_range_violation_iff [THEN conjunct2, THEN conjunct2, THEN conjunct2, THEN conjunct1,
          of Signed "255 :: 8 word" 0 127 "''age''" empty_heap Map.empty]
    C2_range_violation_iff [THEN conjunct2, THEN conjunct2, THEN conjunct2, THEN conjunct1,
          of Unsigned "255 :: 8 word" 0 255 "''age''" empty_heap Map.empty]
    C2_range_violation_iff [THEN conjunct2, THEN conjunct2, THEN conjunct2, THEN conjunct2, THEN conjunct1,
          of "Slice [True, False, True] :: (bool, nat) Lengthable" 1 2 "''tags''" empty_heap Map.empty]
  by (simp add: range_contract_def value_T_def)

subsection \<open>C3: the two families on the same input\<close>

text \<open>
  C3. The claim is that the \<open>Is*\<close> function and the function built on \<open>Validate\<close> always
  leave the accumulator in the same state. They do for five of the six checks
  (\<open>families_agree\<close>), and for the pattern check when the message holds no \<open>%\<close>. On the
  message \<open>needs 100% digits\<close> they differ: \<open>IsRegex\<close> records the message, \<open>Regex\<close>
  records what \<open>fmt.Errorf\<close> makes of it as a format, where \<open>% d\<close> is a directive with no
  operand.
\<close>

theorem C3_families_differ:
  "recorded (IsRegex ''code'' (Errs Map.empty) ''noatsign'' (Some EmailRx) ''needs 100% digits'' h)
       ''code''
     = Some [''needs 100% digits'']
   \<and> recorded (Regex ''code'' (Errs Map.empty) ''noatsign'' (Some EmailRx) ''needs 100% digits'' h)
       ''code''
     = Some [''needs 100%!d(MISSING)igits'']"
  using appends_message_recorded [OF AddError_appends [of "''code''" h Map.empty]]
  by (simp add: IsRegex_eq Regex_eq noatsign_no_match messages_empty eval_Errorf)

subsection \<open>C4: the message of the size-range check\<close>

text \<open>
  C4, as amended. On violation, the size-range check of either family appends
  \<open>Must have exactly {m} entries, but had {size}\<close> when the bounds are equal and
  \<open>Must have between {m} and {n} entries, but had {size}\<close> otherwise, where \<open>size\<close> is the
  number of elements or keys of the value.
\<close>

theorem C4_size_message:
  "len c < lo \<or> hi < len c \<Longrightarrow>
     appends_message f h m
       (if lo = hi then ''Must have exactly '' @ fmt_d lo @ '' entries, but had '' @ fmt_d (len c)
        else ''Must have between '' @ fmt_d lo @ '' and '' @ fmt_d hi @ '' entries, but had ''
               @ fmt_d (len c))
       (IsSize f (Errs m) c lo hi h)
     \<and> appends_message f h m
       (if lo = hi then ''Must have exactly '' @ fmt_d lo @ '' entries, but had '' @ fmt_d (len c)
        else ''Must have between '' @ fmt_d lo @ '' and '' @ fmt_d hi @ '' entries, but had ''
               @ fmt_d (len c))
       (Size f (Errs m) c lo hi h)"
  using AddError_appends [of f h m "size_message lo hi (len c)"]
  by (simp add: IsSize_eq Size_eq size_message_def)

theorem C4_size_message_witness:
  "recorded (IsSize ''tags'' (Errs Map.empty) (Slice [True, False, True] :: (bool, nat) Lengthable)
       2 2 empty_heap) ''tags''
     = Some [''Must have exactly 2 entries, but had 3'']
   \<and> recorded (Size ''tags'' (Errs Map.empty) (MapOf (fmupd 7 True fmempty) :: (bool, nat) Lengthable)
       2 3 empty_heap) ''tags''
     = Some [''Must have between 2 and 3 entries, but had 1'']"
  using C4_size_message [of "Slice [True, False, True] :: (bool, nat) Lengthable" 2 2
      "''tags''" empty_heap Map.empty, THEN conjunct1, THEN appends_message_recorded]
    C4_size_message [of "MapOf (fmupd 7 True fmempty) :: (bool, nat) Lengthable" 2 3
      "''tags''" empty_heap Map.empty, THEN conjunct2, THEN appends_message_recorded]
  by (simp add: messages_empty eval_fmt)

text \<open>The claim as first stated gives the messages without the size, and as the texts of
  the length check with one word replaced. For a slice of three elements and the bounds 2
  and 2, or 1 and 2, the message of the code is neither.\<close>

theorem C4_counterexample:
  "recorded (IsSize ''tags'' (Errs Map.empty) (Slice [True, False, True] :: (bool, nat) Lengthable)
       2 2 empty_heap) ''tags''
     \<noteq> Some [''Must have exactly 2 entries'']
   \<and> recorded (Size ''tags'' (Errs Map.empty) (Slice [True, False, True] :: (bool, nat) Lengthable)
       1 2 empty_heap) ''tags''
     \<noteq> Some [''Must have between 1 and 2 entries'']
   \<and> recorded (IsSize ''tags'' (Errs Map.empty) (Slice [True, False, True] :: (bool, nat) Lengthable)
       2 2 empty_heap) ''tags''
     \<noteq> Some [''Must be exactly 2 entries long'']"
  using appends_message_recorded [OF AddError_appends [of "''tags''" empty_heap Map.empty]]
  by (simp add: IsSize_eq Size_eq size_message_def messages_empty eval_fmt)

subsection \<open>C5: the message of the pattern check\<close>

lemma IsRegex_verbatim:
  "\<not> MatchString rx s \<Longrightarrow> appends_message f h m message (IsRegex f (Errs m) s (Some rx) message h)"
  "MatchString rx s \<Longrightarrow> IsRegex f (Errs m) s (Some rx) message h = Inr (Errs m, h)"
  by (simp_all add: IsRegex_eq AddError_appends)

lemma Regex_verbatim_plain:
  "CHR ''%'' \<notin> set message \<Longrightarrow> \<not> MatchString rx s \<Longrightarrow>
     appends_message f h m message (Regex f (Errs m) s (Some rx) message h)"
  by (simp add: Regex_eq doPrintf_plain AddError_appends)

text \<open>
  C5. The claim is that a failing pattern check appends the caller's message character for
  character. \<open>IsRegex\<close> does (\<open>IsRegex_verbatim\<close>), and \<open>Regex\<close> does for a message
  without \<open>%\<close> (\<open>Regex_verbatim_plain\<close>). \<open>Regex\<close> passes the message to \<open>fmt.Errorf\<close> as
  the format, so a message with \<open>%\<close> is rewritten: here \<open>% o\<close> is read as a directive
  with the flag space and the verb \<open>o\<close>, for which no operand is given.
\<close>

theorem C5_Regex_rewrites_message:
  "recorded (Regex ''email'' (Errs Map.empty) ''noatsign'' (Some EmailRx)
       ''100% of addresses need an @'' h) ''email''
     = Some [''100%!o(MISSING)f addresses need an @'']"
  using appends_message_recorded [OF AddError_appends [of "''email''" h Map.empty]]
  by (simp add: Regex_eq noatsign_no_match messages_empty eval_Errorf)

subsection \<open>C6: the email check\<close>

text \<open>
  C6, as amended. The email check of either family appends \<open>Email address is invalid\<close> if
  and only if the value contains a whitespace byte (tab, line feed, form feed, carriage
  return or space) or has no \<open>@\<close> with at least one byte before it and at least one byte
  after it; the value may hold more than one \<open>@\<close>. Otherwise the accumulator is returned
  unchanged. In particular \<open>a@b\<close> passes, while \<open>a b@c\<close> and \<open>noatsign\<close> fail.
\<close>

theorem C6_email_check:
  "(if (\<exists>c\<in>set s. is_space c) \<or> \<not> (\<exists>a b. s = a @ [CHR ''@''] @ b \<and> a \<noteq> [] \<and> b \<noteq> [])
    then appends_message f h m ''Email address is invalid'' (IsEmail f (Errs m) s h)
    else IsEmail f (Errs m) s h = Inr (Errs m, h))
   \<and> (if (\<exists>c\<in>set s. is_space c) \<or> \<not> (\<exists>a b. s = a @ [CHR ''@''] @ b \<and> a \<noteq> [] \<and> b \<noteq> [])
    then appends_message f h m ''Email address is invalid'' (Email f (Errs m) s h)
    else Email f (Errs m) s h = Inr (Errs m, h))"
proof (cases "MatchString EmailRx s")
  case True
  then have "\<not> ((\<exists>c\<in>set s. is_space c) \<or> \<not> (\<exists>a b. s = a @ [CHR ''@''] @ b \<and> a \<noteq> [] \<and> b \<noteq> []))"
    unfolding EmailRx_matches by blast
  moreover from True have "IsEmail f (Errs m) s h = Inr (Errs m, h)"
    "Email f (Errs m) s h = Inr (Errs m, h)"
    by (simp_all add: IsEmail_eq Email_eq)
  ultimately show ?thesis
    by (simp only: if_False simp_thms)
next
  case False
  then have "(\<exists>c\<in>set s. is_space c) \<or> \<not> (\<exists>a b. s = a @ [CHR ''@''] @ b \<and> a \<noteq> [] \<and> b \<noteq> [])"
    unfolding EmailRx_matches by blast
  moreover from False have
    "appends_message f h m ''Email address is invalid'' (IsEmail f (Errs m) s h)"
    "appends_message f h m ''Email address is invalid'' (Email f (Errs m) s h)"
    by (simp_all add: IsEmail_eq Email_eq AddError_appends)
  ultimately show ?thesis
    by (simp only: if_True simp_thms)
qed

theorem C6_email_check_witness:
  "IsEmail ''email'' (Errs Map.empty) ''a@b'' empty_heap = Inr (Errs Map.empty, empty_heap)
   \<and> recorded (Email ''email'' (Errs Map.empty) ''a b@c'' empty_heap) ''email''
       = Some [''Email address is invalid'']
   \<and> recorded (IsEmail ''email'' (Errs Map.empty) ''noatsign'' empty_heap) ''email''
       = Some [''Email address is invalid'']"
proof -
  have "\<exists>a b. ''a@b'' = a @ [CHR ''@''] @ b \<and> a \<noteq> [] \<and> b \<noteq> []"
    by (rule exI [of _ "''a''"], rule exI [of _ "''b''"]) simp
  moreover have "\<not> (\<exists>c\<in>set ''a@b''. is_space c)"
    by (simp add: is_space_def)
  ultimately have ok:
    "\<not> ((\<exists>c\<in>set ''a@b''. is_space c)
        \<or> \<not> (\<exists>a b. ''a@b'' = a @ [CHR ''@''] @ b \<and> a \<noteq> [] \<and> b \<noteq> []))"
    by blast
  have "\<exists>c\<in>set ''a b@c''. is_space c"
    by (simp add: is_space_def)
  then have blank:
    "(\<exists>c\<in>set ''a b@c''. is_space c)
       \<or> \<not> (\<exists>a b. ''a b@c'' = a @ [CHR ''@''] @ b \<and> a \<noteq> [] \<and> b \<noteq> [])"
    by (rule disjI1)
  have "\<not> (\<exists>a b. ''noatsign'' = a @ [CHR ''@''] @ b \<and> a \<noteq> [] \<and> b \<noteq> [])"
  proof
    assume "\<exists>a b. ''noatsign'' = a @ [CHR ''@''] @ b \<and> a \<noteq> [] \<and> b \<noteq> []"
    then obtain a b where "''noatsign'' = a @ [CHR ''@''] @ b" by blast
    then have "set ''noatsign'' = set (a @ [CHR ''@''] @ b)" by (rule arg_cong)
    then have "CHR ''@'' \<in> set ''noatsign''" by (simp only: set_append set_simps) blast
    then show False by simp
  qed
  then have no_at:
    "(\<exists>c\<in>set ''noatsign''. is_space c)
       \<or> \<not> (\<exists>a b. ''noatsign'' = a @ [CHR ''@''] @ b \<and> a \<noteq> [] \<and> b \<noteq> [])"
    by (rule disjI2)
  note r1 = C6_email_check [THEN conjunct1, of "''a@b''" "''email''" empty_heap Map.empty,
      unfolded if_not_P [OF ok]]
  note r2 = C6_email_check [THEN conjunct2, of "''a b@c''" "''email''" empty_heap Map.empty,
      unfolded if_P [OF blank], THEN appends_message_recorded]
  note r3 = C6_email_check [THEN conjunct1, of "''noatsign''" "''email''" empty_heap Map.empty,
      unfolded if_P [OF no_at], THEN appends_message_recorded]
  show ?thesis
    by (simp add: r1 r2 r3 messages_empty)
qed

text \<open>The claim as first stated asks for exactly one \<open>@\<close>. The value \<open>a@b@c\<close> holds two
  and no whitespace, and passes both checks: \<open>\S\<close> matches \<open>@\<close> too.\<close>

theorem C6_counterexample:
  "count_list ''a@b@c'' CHR ''@'' = 2
   \<and> \<not> (\<exists>c\<in>set ''a@b@c''. is_space c)
   \<and> IsEmail ''email'' (Errs Map.empty) ''a@b@c'' empty_heap = Inr (Errs Map.empty, empty_heap)
   \<and> Email ''email'' (Errs Map.empty) ''a@b@c'' empty_heap = Inr (Errs Map.empty, empty_heap)"
  by (simp add: IsEmail_eq Email_eq eval_EmailRx)

subsection \<open>C7: the message of the minimum-size check\<close>

text \<open>
  C7. On violation, the minimum-size check of either family appends
  \<open>Must have a minimum of {n} {word}, but had {size}\<close>, where the word is \<open>entry\<close> when
  \<open>n \<le> 1\<close> and \<open>entries\<close> when \<open>n > 1\<close>. (A violation needs \<open>size < n\<close>, so among the
  values \<open>n \<le> 1\<close> only \<open>n = 1\<close> can produce a message: \<open>MinSize_violation_positive\<close>.)
\<close>

theorem C7_min_size_message:
  "len c < n \<Longrightarrow>
     appends_message f h m
       (''Must have a minimum of '' @ fmt_d n @ '' '' @ (if n \<le> 1 then ''entry'' else ''entries'')
          @ '', but had '' @ fmt_d (len c))
       (IsMinSize f (Errs m) c n h)
     \<and> appends_message f h m
       (''Must have a minimum of '' @ fmt_d n @ '' '' @ (if n \<le> 1 then ''entry'' else ''entries'')
          @ '', but had '' @ fmt_d (len c))
       (MinSize f (Errs m) c n h)"
  using AddError_appends [of f h m "min_size_message n (len c)"]
  by (simp add: IsMinSize_eq MinSize_eq min_size_message_def)

theorem C7_min_size_message_witness:
  "recorded (IsMinSize ''tags'' (Errs Map.empty) (Slice [] :: (bool, nat) Lengthable) 1 empty_heap)
       ''tags''
     = Some [''Must have a minimum of 1 entry, but had 0'']
   \<and> recorded (MinSize ''tags'' (Errs Map.empty) (Slice [True] :: (bool, nat) Lengthable) 2 empty_heap)
       ''tags''
     = Some [''Must have a minimum of 2 entries, but had 1'']"
  using C7_min_size_message [of "Slice [] :: (bool, nat) Lengthable" 1 "''tags''" empty_heap
      Map.empty, THEN conjunct1, THEN appends_message_recorded]
    C7_min_size_message [of "Slice [True] :: (bool, nat) Lengthable" 2 "''tags''" empty_heap
      Map.empty, THEN conjunct2, THEN appends_message_recorded]
  by (simp add: messages_empty eval_fmt)

subsection \<open>C8: equal bounds give the exact message, different bounds the range message\<close>

text \<open>
  C8. For the length, numeric-range and size-range checks of both families, when the check
  fails: if the bounds are equal the appended message is the \<open>exactly\<close> text, and if the
  lower bound is less than the upper bound it is the \<open>between\<close> text, which names both
  bounds.
\<close>

theorem C8_exactly_or_between:
  "(int (length s) < lo \<or> hi < int (length s) \<longrightarrow>
      (lo = hi \<longrightarrow>
         appends_message f h m (''Must be exactly '' @ fmt_d lo @ '' characters long'')
           (IsStringLength f (Errs m) s lo hi h)
         \<and> appends_message f h m (''Must be exactly '' @ fmt_d lo @ '' characters long'')
           (StringLength f (Errs m) s lo hi h))
      \<and> (lo < hi \<longrightarrow>
         appends_message f h m
           (''Must be between '' @ fmt_d lo @ '' and '' @ fmt_d hi @ '' characters long'')
           (IsStringLength f (Errs m) s lo hi h)
         \<and> appends_message f h m
           (''Must be between '' @ fmt_d lo @ '' and '' @ fmt_d hi @ '' characters long'')
           (StringLength f (Errs m) s lo hi h)))
   \<and> (value_T T v < value_T T vlo \<or> value_T T vhi < value_T T v \<longrightarrow>
      (vlo = vhi \<longrightarrow>
         appends_message f h m
           (''Must be exactly '' @ fmt_d (value_T T vlo) @ '', but was '' @ fmt_d (value_T T v))
           (IsNumberBetween T f (Errs m) v vlo vhi h)
         \<and> appends_message f h m
           (''Must be exactly '' @ fmt_d (value_T T vlo) @ '', but was '' @ fmt_d (value_T T v))
           (NumberBetween T f (Errs m) v vlo vhi h))
      \<and> (value_T T vlo < value_T T vhi \<longrightarrow>
         appends_message f h m
           (''Must be between '' @ fmt_d (value_T T vlo) @ '' and '' @ fmt_d (value_T T vhi)
              @ '', but was '' @ fmt_d (value_T T v))
           (IsNumberBetween T f (Errs m) v vlo vhi h)
         \<and> appends_message f h m
           (''Must be between '' @ fmt_d (value_T T vlo) @ '' and '' @ fmt_d (value_T T vhi)
              @ '', but was '' @ fmt_d (value_T T v))
           (NumberBetween T f (Errs m) v vlo vhi h)))
   \<and> (len c < lo \<or> hi < len c \<longrightarrow>
      (lo = hi \<longrightarrow>
         appends_message f h m
           (''Must have exactly '' @ fmt_d lo @ '' entries, but had '' @ fmt_d (len c))
           (IsSize f (Errs m) c lo hi h)
         \<and> appends_message f h m
           (''Must have exactly '' @ fmt_d lo @ '' entries, but had '' @ fmt_d (len c))
           (Size f (Errs m) c lo hi h))
      \<and> (lo < hi \<longrightarrow>
         appends_message f h m
           (''Must have between '' @ fmt_d lo @ '' and '' @ fmt_d hi @ '' entries, but had ''
              @ fmt_d (len c))
           (IsSize f (Errs m) c lo hi h)
         \<and> appends_message f h m
           (''Must have between '' @ fmt_d lo @ '' and '' @ fmt_d hi @ '' entries, but had ''
              @ fmt_d (len c))
           (Size f (Errs m) c lo hi h)))"
proof (intro conjI)
  show "int (length s) < lo \<or> hi < int (length s) \<longrightarrow>
      (lo = hi \<longrightarrow>
         appends_message f h m (''Must be exactly '' @ fmt_d lo @ '' characters long'')
           (IsStringLength f (Errs m) s lo hi h)
         \<and> appends_message f h m (''Must be exactly '' @ fmt_d lo @ '' characters long'')
           (StringLength f (Errs m) s lo hi h))
      \<and> (lo < hi \<longrightarrow>
         appends_message f h m
           (''Must be between '' @ fmt_d lo @ '' and '' @ fmt_d hi @ '' characters long'')
           (IsStringLength f (Errs m) s lo hi h)
         \<and> appends_message f h m
           (''Must be between '' @ fmt_d lo @ '' and '' @ fmt_d hi @ '' characters long'')
           (StringLength f (Errs m) s lo hi h))"
    using AddError_appends [of f h m "length_message lo hi"]
    by (auto simp: IsStringLength_eq StringLength_eq length_message_def)
next
  show "value_T T v < value_T T vlo \<or> value_T T vhi < value_T T v \<longrightarrow>
      (vlo = vhi \<longrightarrow>
         appends_message f h m
           (''Must be exactly '' @ fmt_d (value_T T vlo) @ '', but was '' @ fmt_d (value_T T v))
           (IsNumberBetween T f (Errs m) v vlo vhi h)
         \<and> appends_message f h m
           (''Must be exactly '' @ fmt_d (value_T T vlo) @ '', but was '' @ fmt_d (value_T T v))
           (NumberBetween T f (Errs m) v vlo vhi h))
      \<and> (value_T T vlo < value_T T vhi \<longrightarrow>
         appends_message f h m
           (''Must be between '' @ fmt_d (value_T T vlo) @ '' and '' @ fmt_d (value_T T vhi)
              @ '', but was '' @ fmt_d (value_T T v))
           (IsNumberBetween T f (Errs m) v vlo vhi h)
         \<and> appends_message f h m
           (''Must be between '' @ fmt_d (value_T T vlo) @ '' and '' @ fmt_d (value_T T vhi)
              @ '', but was '' @ fmt_d (value_T T v))
           (NumberBetween T f (Errs m) v vlo vhi h))"
    using AddError_appends [of f h m "number_message (value_T T vlo) (value_T T vhi) (value_T T v)"]
    by (auto simp: IsNumberBetween_eq NumberBetween_eq number_message_def)
next
  show "len c < lo \<or> hi < len c \<longrightarrow>
      (lo = hi \<longrightarrow>
         appends_message f h m
           (''Must have exactly '' @ fmt_d lo @ '' entries, but had '' @ fmt_d (len c))
           (IsSize f (Errs m) c lo hi h)
         \<and> appends_message f h m
           (''Must have exactly '' @ fmt_d lo @ '' entries, but had '' @ fmt_d (len c))
           (Size f (Errs m) c lo hi h))
      \<and> (lo < hi \<longrightarrow>
         appends_message f h m
           (''Must have between '' @ fmt_d lo @ '' and '' @ fmt_d hi @ '' entries, but had ''
              @ fmt_d (len c))
           (IsSize f (Errs m) c lo hi h)
         \<and> appends_message f h m
           (''Must have between '' @ fmt_d lo @ '' and '' @ fmt_d hi @ '' entries, but had ''
              @ fmt_d (len c))
           (Size f (Errs m) c lo hi h))"
    using AddError_appends [of f h m "size_message lo hi (len c)"]
    by (auto simp: IsSize_eq Size_eq size_message_def)
qed

theorem C8_exactly_or_between_witness:
  "recorded (IsStringLength ''zip'' (Errs Map.empty) ''1234'' 5 5 empty_heap) ''zip''
     = Some [''Must be exactly 5 characters long'']
   \<and> recorded (StringLength ''zip'' (Errs Map.empty) ''1234'' 5 9 empty_heap) ''zip''
     = Some [''Must be between 5 and 9 characters long'']
   \<and> recorded (NumberBetween Signed ''delta'' (Errs Map.empty) (- 128 :: 8 word) (- 5) 5 empty_heap)
       ''delta''
     = Some [''Must be between -5 and 5, but was -128'']
   \<and> recorded (IsNumberBetween Unsigned ''level'' (Errs Map.empty) (255 :: 8 word) 7 7 empty_heap)
       ''level''
     = Some [''Must be exactly 7, but was 255'']
   \<and> recorded (IsSize ''tags'' (Errs Map.empty) (Slice [True, False, True] :: (bool, nat) Lengthable)
       2 2 empty_heap) ''tags''
     = Some [''Must have exactly 2 entries, but had 3'']"
proof -
  have a1: "appends_message ''zip'' empty_heap Map.empty ''Must be exactly 5 characters long''
              (IsStringLength ''zip'' (Errs Map.empty) ''1234'' 5 5 empty_heap)"
    using C8_exactly_or_between [THEN conjunct1, of "''1234''" 5 5 "''zip''" empty_heap Map.empty]
    by (simp add: eval_fmt)
  have a2: "appends_message ''zip'' empty_heap Map.empty ''Must be between 5 and 9 characters long''
              (StringLength ''zip'' (Errs Map.empty) ''1234'' 5 9 empty_heap)"
    using C8_exactly_or_between [THEN conjunct1, of "''1234''" 5 9 "''zip''" empty_heap Map.empty]
    by (simp add: eval_fmt)
  have a3: "appends_message ''delta'' empty_heap Map.empty ''Must be between -5 and 5, but was -128''
              (NumberBetween Signed ''delta'' (Errs Map.empty) (- 128 :: 8 word) (- 5) 5 empty_heap)"
    using C8_exactly_or_between [THEN conjunct2, THEN conjunct1,
      of Signed "- 128 :: 8 word" "- 5" 5 "''delta''" empty_heap Map.empty]
    by (simp add: value_T_def eval_fmt)
  have a4: "appends_message ''level'' empty_heap Map.empty ''Must be exactly 7, but was 255''
              (IsNumberBetween Unsigned ''level'' (Errs Map.empty) (255 :: 8 word) 7 7 empty_heap)"
    using C8_exactly_or_between [THEN conjunct2, THEN conjunct1,
      of Unsigned "255 :: 8 word" 7 7 "''level''" empty_heap Map.empty]
    by (simp add: value_T_def eval_fmt)
  have a5: "appends_message ''tags'' empty_heap Map.empty ''Must have exactly 2 entries, but had 3''
              (IsSize ''tags'' (Errs Map.empty) (Slice [True, False, True] :: (bool, nat) Lengthable)
                 2 2 empty_heap)"
    using C8_exactly_or_between [THEN conjunct2, THEN conjunct2,
      of "Slice [True, False, True] :: (bool, nat) Lengthable" 2 2 "''tags''" empty_heap Map.empty]
    by (simp add: eval_fmt)
  show ?thesis
    using a1 [THEN appends_message_recorded] a2 [THEN appends_message_recorded]
      a3 [THEN appends_message_recorded] a4 [THEN appends_message_recorded]
      a5 [THEN appends_message_recorded]
    by (simp add: messages_empty)
qed

subsection \<open>C9: a check touches the entry of its own field only\<close>

text \<open>
  C9, as amended. For every check of both families called with the field name \<open>f\<close> on an
  accumulator in which no two keys hold slices on the same backing array, and every other
  field name \<open>g\<close>, the sequence under \<open>g\<close>, or its absence, is the same after the call as
  before.
\<close>

theorem C9_other_fields_untouched:
  "separate h m \<Longrightarrow>
   keeps_other_fields f h m (IsStringLength f (Errs m) s lo hi h)
   \<and> keeps_other_fields f h m (StringLength f (Errs m) s lo hi h)
   \<and> keeps_other_fields f h m (IsNumberBetween T f (Errs m) v vlo vhi h)
   \<and> keeps_other_fields f h m (NumberBetween T f (Errs m) v vlo vhi h)
   \<and> keeps_other_fields f h m (IsSize f (Errs m) c lo hi h)
   \<and> keeps_other_fields f h m (Size f (Errs m) c lo hi h)
   \<and> keeps_other_fields f h m (IsMinSize f (Errs m) c n h)
   \<and> keeps_other_fields f h m (MinSize f (Errs m) c n h)
   \<and> keeps_other_fields f h m (IsRegex f (Errs m) s (Some rx) message h)
   \<and> keeps_other_fields f h m (Regex f (Errs m) s (Some rx) message h)
   \<and> keeps_other_fields f h m (IsEmail f (Errs m) s h)
   \<and> keeps_other_fields f h m (Email f (Errs m) s h)"
  unfolding IsStringLength_eq StringLength_eq IsNumberBetween_eq NumberBetween_eq
    IsSize_eq Size_eq IsMinSize_eq MinSize_eq IsRegex_eq Regex_eq IsEmail_eq Email_eq
  by (intro conjI keeps_if)

theorem C9_other_fields_untouched_witness:
  "separate pair_heap pair_errors
   \<and> recorded (IsEmail ''email'' (Errs pair_errors) ''noatsign'' pair_heap) ''name''
       = Some [''taken'']
   \<and> recorded (IsEmail ''email'' (Errs pair_errors) ''noatsign'' pair_heap) ''phone'' = Some []
   \<and> (\<exists>m' h'. IsEmail ''email'' (Errs pair_errors) ''noatsign'' pair_heap = Inr (Errs m', h')
         \<and> m' ''phone'' = None)"
proof -
  note k = C9_other_fields_untouched [OF pair_separate, THEN conjunct2, THEN conjunct2,
      THEN conjunct2, THEN conjunct2, THEN conjunct2, THEN conjunct2, THEN conjunct2,
      THEN conjunct2, THEN conjunct2, THEN conjunct2, THEN conjunct1,
      of "''email''" "''noatsign''"]
  have "\<exists>m' h'. IsEmail ''email'' (Errs pair_errors) ''noatsign'' pair_heap = Inr (Errs m', h')
         \<and> m' ''phone'' = None"
    using k by (auto simp: keeps_other_fields_def pair_errors_def)
  then show ?thesis
    using pair_separate keeps_other_fields_recorded [OF k, of "''name''"]
      keeps_other_fields_recorded [OF k, of "''phone''"]
    by (simp add: pair_before)
qed

text \<open>The claim as first stated is about every accumulator. On
  \<^verbatim>\<open>Errors{"a": back[:1], "b": back[:2]}\<close> a failing size check on \<open>a\<close> changes the
  sequence under \<open>b\<close> from \<open>p, q\<close> to \<open>p\<close> and the message of the check.\<close>

theorem C9_counterexample:
  "messages (Errs shared_errors) shared_heap ''b'' = [''p'', ''q'']
   \<and> recorded (Size ''a'' (Errs shared_errors) (Slice [True] :: (bool, nat) Lengthable) 2 3
        shared_heap) ''b''
       = Some [''p'', ''Must have between 2 and 3 entries, but had 1'']"
  by (simp add: shared_before Size_eq shared_AddError size_message_def eval_fmt)

subsection \<open>C10: inverted bounds reject every value\<close>

text \<open>
  C10. When the lower bound is greater than the upper bound, the length, numeric-range and
  size-range checks of both families append a message for every value, and it is the
  \<open>between\<close> text with the bounds in the order given: the code neither checks nor swaps
  them.
\<close>

theorem C10_inverted_bounds:
  "(hi < lo \<longrightarrow>
      appends_message f h m
        (''Must be between '' @ fmt_d lo @ '' and '' @ fmt_d hi @ '' characters long'')
        (IsStringLength f (Errs m) s lo hi h)
      \<and> appends_message f h m
        (''Must be between '' @ fmt_d lo @ '' and '' @ fmt_d hi @ '' characters long'')
        (StringLength f (Errs m) s lo hi h)
      \<and> appends_message f h m
        (''Must have between '' @ fmt_d lo @ '' and '' @ fmt_d hi @ '' entries, but had ''
           @ fmt_d (len c))
        (IsSize f (Errs m) c lo hi h)
      \<and> appends_message f h m
        (''Must have between '' @ fmt_d lo @ '' and '' @ fmt_d hi @ '' entries, but had ''
           @ fmt_d (len c))
        (Size f (Errs m) c lo hi h))
   \<and> (value_T T vhi < value_T T vlo \<longrightarrow>
      appends_message f h m
        (''Must be between '' @ fmt_d (value_T T vlo) @ '' and '' @ fmt_d (value_T T vhi)
           @ '', but was '' @ fmt_d (value_T T v))
        (IsNumberBetween T f (Errs m) v vlo vhi h)
      \<and> appends_message f h m
        (''Must be between '' @ fmt_d (value_T T vlo) @ '' and '' @ fmt_d (value_T T vhi)
           @ '', but was '' @ fmt_d (value_T T v))
        (NumberBetween T f (Errs m) v vlo vhi h))"
proof (intro conjI impI)
  assume inv: "hi < lo"
  then have viol: "int (length s) < lo \<or> hi < int (length s)" "len c < lo \<or> hi < len c"
    by linarith+
  from inv have ne: "lo \<noteq> hi" by simp
  show "appends_message f h m
        (''Must be between '' @ fmt_d lo @ '' and '' @ fmt_d hi @ '' characters long'')
        (IsStringLength f (Errs m) s lo hi h)"
    using viol(1) ne AddError_appends [of f h m "length_message lo hi"]
    by (simp add: IsStringLength_eq length_message_def)
  show "appends_message f h m
        (''Must be between '' @ fmt_d lo @ '' and '' @ fmt_d hi @ '' characters long'')
        (StringLength f (Errs m) s lo hi h)"
    using viol(1) ne AddError_appends [of f h m "length_message lo hi"]
    by (simp add: StringLength_eq length_message_def)
  show "appends_message f h m
        (''Must have between '' @ fmt_d lo @ '' and '' @ fmt_d hi @ '' entries, but had ''
           @ fmt_d (len c))
        (IsSize f (Errs m) c lo hi h)"
    using viol(2) ne AddError_appends [of f h m "size_message lo hi (len c)"]
    by (simp add: IsSize_eq size_message_def)
  show "appends_message f h m
        (''Must have between '' @ fmt_d lo @ '' and '' @ fmt_d hi @ '' entries, but had ''
           @ fmt_d (len c))
        (Size f (Errs m) c lo hi h)"
    using viol(2) ne AddError_appends [of f h m "size_message lo hi (len c)"]
    by (simp add: Size_eq size_message_def)
next
  assume inv: "value_T T vhi < value_T T vlo"
  then have viol: "value_T T v < value_T T vlo \<or> value_T T vhi < value_T T v"
    by linarith
  from inv have ne: "value_T T vlo \<noteq> value_T T vhi" by simp
  show "appends_message f h m
        (''Must be between '' @ fmt_d (value_T T vlo) @ '' and '' @ fmt_d (value_T T vhi)
           @ '', but was '' @ fmt_d (value_T T v))
        (IsNumberBetween T f (Errs m) v vlo vhi h)"
    using viol ne
      AddError_appends [of f h m "number_message (value_T T vlo) (value_T T vhi) (value_T T v)"]
    by (simp add: IsNumberBetween_eq number_message_def)
  show "appends_message f h m
        (''Must be between '' @ fmt_d (value_T T vlo) @ '' and '' @ fmt_d (value_T T vhi)
           @ '', but was '' @ fmt_d (value_T T v))
        (NumberBetween T f (Errs m) v vlo vhi h)"
    using viol ne
      AddError_appends [of f h m "number_message (value_T T vlo) (value_T T vhi) (value_T T v)"]
    by (simp add: NumberBetween_eq number_message_def)
qed

theorem C10_inverted_bounds_witness:
  "recorded (IsStringLength ''zip'' (Errs Map.empty) ''12345'' 9 3 empty_heap) ''zip''
     = Some [''Must be between 9 and 3 characters long'']
   \<and> recorded (Size ''tags'' (Errs Map.empty) (Slice [True, False] :: (bool, nat) Lengthable) 4 1
       empty_heap) ''tags''
     = Some [''Must have between 4 and 1 entries, but had 2'']
   \<and> recorded (NumberBetween Signed ''delta'' (Errs Map.empty) (0 :: 16 word) 1 (- 1) empty_heap)
       ''delta''
     = Some [''Must be between 1 and -1, but was 0'']"
proof -
  have a1: "appends_message ''zip'' empty_heap Map.empty ''Must be between 9 and 3 characters long''
              (IsStringLength ''zip'' (Errs Map.empty) ''12345'' 9 3 empty_heap)"
    using C10_inverted_bounds [where hi = 3 and lo = 9 and f = "''zip''" and m = Map.empty
        and h = empty_heap and s = "''12345''"
        and c = "Slice [True, False] :: (bool, nat) Lengthable", THEN conjunct1]
    by (simp add: eval_fmt)
  have a2: "appends_message ''tags'' empty_heap Map.empty
              ''Must have between 4 and 1 entries, but had 2''
              (Size ''tags'' (Errs Map.empty) (Slice [True, False] :: (bool, nat) Lengthable) 4 1
                 empty_heap)"
    using C10_inverted_bounds [where hi = 1 and lo = 4 and f = "''tags''" and m = Map.empty
        and h = empty_heap and s = "''12345''"
        and c = "Slice [True, False] :: (bool, nat) Lengthable", THEN conjunct1]
    by (simp add: eval_fmt)
  have a3: "appends_message ''delta'' empty_heap Map.empty ''Must be between 1 and -1, but was 0''
              (NumberBetween Signed ''delta'' (Errs Map.empty) (0 :: 16 word) 1 (- 1) empty_heap)"
    using C10_inverted_bounds [where T = Signed and vhi = "- 1 :: 16 word" and vlo = 1
        and f = "''delta''" and m = Map.empty and h = empty_heap and v = 0, THEN conjunct2]
    by (simp add: value_T_def eval_fmt)
  show ?thesis
    using a1 [THEN appends_message_recorded] a2 [THEN appends_message_recorded]
      a3 [THEN appends_message_recorded]
    by (simp add: messages_empty)
qed

end
